theory Spec2Isabelle
  imports Complex_Main "HOL-Library.Sublist" "HOL-Library.Multiset"
begin

section \<open>Strings\<close>

text \<open>
  A Python string is a sequence of code points; the model has the code points below 256,
  one for each \<^typ>\<open>char\<close>. White space is what \<open>str.split\<close>, \<open>str.strip\<close> and the
  regular expression class \<open>\s\<close> accept there: the ASCII white space, the separators 28
  to 31, the next-line character 133 and the no-break space 160. \<open>str.lower\<close> maps
  \<open>A..Z\<close> and the capital letters 192 to 222 (215, the multiplication sign, is none) to
  the letter 32 places later, and leaves every other character alone.
\<close>

definition is_space :: "char \<Rightarrow> bool" where
  "is_space c = (of_char c \<in> {9, 10, 11, 12, 13, 28, 29, 30, 31, 32, 133, 160 :: nat})"

definition lower_char :: "char \<Rightarrow> char" where
  "lower_char c =
     (let n = (of_char c :: nat)
      in if (65 \<le> n \<and> n \<le> 90) \<or> (192 \<le> n \<and> n \<le> 222 \<and> n \<noteq> 215) then char_of (n + 32)
         else c)"

definition lower :: "string \<Rightarrow> string" where
  "lower s = map lower_char s"

text \<open>\<open>p in s\<close> on strings: \<open>p\<close> occurs in \<open>s\<close> as a contiguous run.\<close>

fun contains :: "string \<Rightarrow> string \<Rightarrow> bool" where
  "contains p [] = (p = [])"
| "contains p (c # cs) = (prefix p (c # cs) \<or> contains p cs)"

text \<open>\<open>s.split()\<close>: the maximal runs of characters that are not white space.\<close>

fun split_ws :: "string \<Rightarrow> string \<Rightarrow> string list" where
  "split_ws cur [] = (if cur = [] then [] else [cur])"
| "split_ws cur (c # cs) =
     (if is_space c then (if cur = [] then split_ws [] cs else cur # split_ws [] cs)
      else split_ws (cur @ [c]) cs)"

definition py_split :: "string \<Rightarrow> string list" where
  "py_split s = split_ws [] s"

text \<open>\<open>sep.join(parts)\<close>.\<close>

fun join :: "string \<Rightarrow> string list \<Rightarrow> string" where
  "join sep [] = []"
| "join sep [x] = x"
| "join sep (x # y # ys) = x @ sep @ join sep (y # ys)"

text \<open>\<open>xs[:n]\<close> for a Python integer \<open>n\<close>: a negative bound counts from the end.\<close>

definition take_upto :: "int \<Rightarrow> 'a list \<Rightarrow> 'a list" where
  "take_upto n xs = (if 0 \<le> n then take (nat n) xs else take (length xs - nat (- n)) xs)"

section \<open>Exceptions\<close>

text \<open>
  \<open>TavilySearchError\<close> is the repository's own exception class; \<open>KeyError\<close> and
  \<open>IndexError\<close> are the built-in ones a dictionary or list lookup raises; \<open>RetryError\<close> is
  what the retry library raises in place of the last error when \<open>reraise\<close> is off.
  \<open>Exception\<close> stands for every other exception that \<open>except Exception\<close> catches and
  \<open>BaseException\<close> for those it does not catch (cancellation, keyboard interrupt).
\<close>

datatype exn =
    TavilySearchError string
  | KeyError string
  | IndexError
  | RetryError exn
  | Exception string
  | BaseException string

fun is_Exception :: "exn \<Rightarrow> bool" where
  "is_Exception (BaseException m) = False"
| "is_Exception e = True"

text \<open>\<open>str(e)\<close>, as an f-string renders the exception: a \<open>KeyError\<close> shows its key quoted.\<close>

fun str_exn :: "exn \<Rightarrow> string" where
  "str_exn (TavilySearchError m) = m"
| "str_exn (KeyError k) = [CHR 0x27] @ k @ [CHR 0x27]"
| "str_exn IndexError = ''list index out of range''"
| "str_exn (RetryError e) = ''RetryError''"
| "str_exn (Exception m) = m"
| "str_exn (BaseException m) = m"

section \<open>Binary64 numbers\<close>

text \<open>
  Python's \<open>float\<close> is the binary64 format: a number is a multiple of a power of two,
  with 53 binary digits. \<open>double x\<close> is the binary64 number nearest to the real number
  \<open>x\<close>, the one with the even multiple when two are equally near. It is the value of a
  number written in decimal, in the source or in a response, and the result of a
  floating-point subtraction is \<open>double\<close> of the exact difference. The exponent is found
  by halving or doubling, in at most 1100 steps, which covers the format; below the exponent
  -1022 the spacing stays that of the smallest normal numbers. Infinities and values that
  are not numbers are outside the model.
\<close>

definition round_even :: "real \<Rightarrow> int" where
  "round_even y =
     (let f = \<lfloor>y\<rfloor>; r = y - of_int f
      in if r < 1 / 2 then f else if 1 / 2 < r then f + 1 else if even f then f else f + 1)"

definition pow2 :: "int \<Rightarrow> real" where
  "pow2 k = (if 0 \<le> k then 2 ^ nat k else 1 / 2 ^ nat (- k))"

primrec expo :: "nat \<Rightarrow> real \<Rightarrow> int" where
  "expo 0 x = 0"
| "expo (Suc n) x =
     (if 2 \<le> x then expo n (x / 2) + 1 else if x < 1 then expo n (x * 2) - 1 else 0)"

definition exponent :: "real \<Rightarrow> int" where
  "exponent x = max (expo 1100 \<bar>x\<bar>) (- 1022)"

definition double :: "real \<Rightarrow> real" where
  "double x =
     (if x = 0 then 0
      else (let u = pow2 (exponent x - 52) in of_int (round_even (x / u)) * u))"

section \<open>The evidence filter: \<open>format_context_from_tavily\<close>\<close>

text \<open>
  A retrieval result is a dictionary; each of the three keys the code reads may be absent.
  A score is a binary64 number: the field holds the number as it is written, and the code
  computes with its binary64 value.
\<close>

record tavily_result =
  title :: "string option"
  content :: "string option"
  score :: "real option"

record tavily_response =
  results :: "tavily_result list option"

text \<open>\<open>r.get("score", 0)\<close>.\<close>

definition get_score :: "tavily_result \<Rightarrow> real" where
  "get_score r = (case score r of None \<Rightarrow> 0 | Some s \<Rightarrow> double s)"

text \<open>
  \<open>sorted(xs, key=key, reverse=True)\<close>: the list is reversed, sorted by a stable ascending
  sort and reversed again, so that equal keys keep their order.
\<close>

definition sorted_reverse :: "('a \<Rightarrow> real) \<Rightarrow> 'a list \<Rightarrow> 'a list" where
  "sorted_reverse key xs = rev (sort_key key (rev xs))"

text \<open>
  The comprehension and the slice of line 79: the difference is a floating-point
  subtraction, compared with the binary64 value of the bound.
\<close>

definition filtered_results :: "real \<Rightarrow> real \<Rightarrow> int \<Rightarrow> tavily_result list \<Rightarrow> tavily_result list" where
  "filtered_results top_score score_max_diff max_results sorted_results =
     take_upto max_results
       (filter (\<lambda>r. double (top_score - get_score r) \<le> double score_max_diff) sorted_results)"

text \<open>
  The comprehension of line 83: \<open>r['title']\<close> and \<open>r['content']\<close> raise \<open>KeyError\<close> on
  a missing key, in the order the results are formatted.
\<close>

fun context_parts :: "tavily_result list \<Rightarrow> exn + string list" where
  "context_parts [] = Inr []"
| "context_parts (r # rs) =
     (case title r of
        None \<Rightarrow> Inl (KeyError ''title'')
      | Some t \<Rightarrow>
          (case content r of
             None \<Rightarrow> Inl (KeyError ''content'')
           | Some c \<Rightarrow>
               (case context_parts rs of
                  Inl e \<Rightarrow> Inl e
                | Inr ps \<Rightarrow> Inr ((t @ '':\<newline>'' @ c @ ''\<newline>\<newline>'') # ps))))"

definition format_context_from_tavily :: "tavily_response \<Rightarrow> real \<Rightarrow> int \<Rightarrow> exn + string" where
  "format_context_from_tavily resp score_max_diff max_results =
     (let rs = (case results resp of None \<Rightarrow> [] | Some xs \<Rightarrow> xs) in
      if rs = [] then Inr ''No relevant information found.''
      else
        (let sorted_results = sorted_reverse get_score rs in
         case sorted_results of
           [] \<Rightarrow> Inl IndexError
         | best # others \<Rightarrow>
             (let top_score = get_score best;
                  filtered = filtered_results top_score score_max_diff max_results sorted_results
              in if filtered = [] then Inr ''No high-confidence sources available.''
                 else (case context_parts filtered of
                         Inl e \<Rightarrow> Inl e
                       | Inr parts \<Rightarrow> Inr (join ''\<newline>\<newline>'' parts)))))"

section \<open>Retrieval with retries: \<open>tavily_search\<close>\<close>

text \<open>
  The environment of a run: the credential read at import time, the retrieval provider
  (its answer to the \<open>n\<close>-th attempt for a query and a depth), the generation provider
  and the JSON parser.
\<close>

datatype json =
    JNull
  | JBool bool
  | JInt int
  | JFloat real
  | JString string
  | JArray "json list"
  | JObject "(string \<times> json) list"

record env =
  TAVILY_API_KEY :: "string option"
  client_search :: "nat \<Rightarrow> string \<Rightarrow> string \<Rightarrow> exn + tavily_response"
  cohere :: "string \<Rightarrow> exn + string"
  json_loads :: "string \<Rightarrow> json option"

text \<open>\<open>except Exception as e: raise TavilySearchError(f"[Tavily SDK Error] {e}")\<close>.\<close>

definition sdk_error :: "exn \<Rightarrow> exn" where
  "sdk_error e = (if is_Exception e then TavilySearchError (''[Tavily SDK Error] '' @ str_exn e) else e)"

text \<open>One execution of the body of \<open>tavily_search\<close> (lines 43 to 58).\<close>

definition tavily_search_body ::
  "string option \<Rightarrow> (string \<Rightarrow> string \<Rightarrow> exn + tavily_response) \<Rightarrow> string \<Rightarrow> string \<Rightarrow> exn + string" where
  "tavily_search_body api_key search q search_depth =
     (if length q > 400
      then Inl (TavilySearchError ''Query is too long. Max query length is 400 characters.'')
      else if api_key = None \<or> api_key = Some []
      then Inl (TavilySearchError ''Tavily API key not found.'')
      else (case search q search_depth of
              Inl e \<Rightarrow> Inl (sdk_error e)
            | Inr resp \<Rightarrow>
                (case format_context_from_tavily resp 0.08 4 of
                   Inl e \<Rightarrow> Inl (sdk_error e)
                 | Inr s \<Rightarrow> Inr s)))"

text \<open>
  \<open>wait_exponential(multiplier, min, max)\<close> of the retry library, after attempt number
  \<open>n\<close> (counted from 1): \<open>multiplier * 2 ^ (n - 1)\<close>, clipped to the range from \<open>min\<close> to \<open>max\<close>.
\<close>

definition wait_exponential :: "nat \<Rightarrow> nat \<Rightarrow> nat \<Rightarrow> nat \<Rightarrow> nat" where
  "wait_exponential multiplier mn mx n = max (max 0 mn) (min (multiplier * 2 ^ (n - 1)) mx)"

text \<open>\<open>retry_if_exception_type(TavilySearchError)\<close>.\<close>

fun retry_if_TavilySearchError :: "exn \<Rightarrow> bool" where
  "retry_if_TavilySearchError (TavilySearchError m) = True"
| "retry_if_TavilySearchError e = False"

text \<open>
  The retry decorator: \<open>fn n\<close> is the outcome of attempt \<open>n\<close>. An attempt that returns ends
  the call. An exception the retry condition rejects is raised at once. Otherwise, when
  \<open>stop_after_attempt\<close> is reached, the last exception is raised (as it is when \<open>reraise\<close>
  is set, else inside a \<open>RetryError\<close>); before that the call sleeps and tries again.
  The result is the outcome together with the sleeps, in order.
\<close>

function retrying ::
  "bool \<Rightarrow> nat \<Rightarrow> (nat \<Rightarrow> nat) \<Rightarrow> (exn \<Rightarrow> bool) \<Rightarrow> (nat \<Rightarrow> exn + 'a) \<Rightarrow> nat \<Rightarrow> (exn + 'a) \<times> nat list" where
  "retrying reraise stop wait retry_on fn n =
     (case fn n of
        Inr v \<Rightarrow> (Inr v, [])
      | Inl e \<Rightarrow>
          if \<not> retry_on e then (Inl e, [])
          else if stop \<le> n then (if reraise then Inl e else Inl (RetryError e), [])
          else (case retrying reraise stop wait retry_on fn (Suc n) of
                  (r, sleeps) \<Rightarrow> (r, wait n # sleeps)))"
  by pat_completeness auto
termination
  by (relation "measure (\<lambda>(reraise, stop, wait, retry_on, fn, n). stop - n)") auto

declare retrying.simps [simp del]

text \<open>
  The decorator of lines 26 to 31, with its arguments: attempts are counted from 1.
  \<open>asyncio.coroutine\<close> gives a function declared with \<open>async def\<close> back as it is, so
  the retry wraps \<open>tavily_search\<close> itself.
\<close>

definition retry_async :: "(nat \<Rightarrow> exn + 'a) \<Rightarrow> (exn + 'a) \<times> nat list" where
  "retry_async fn =
     retrying True 3 (wait_exponential 1 2 10) retry_if_TavilySearchError fn 1"

text \<open>The decorated function \<open>tavily_search\<close>.\<close>

definition tavily_search :: "env \<Rightarrow> string \<Rightarrow> string \<Rightarrow> (exn + string) \<times> nat list" where
  "tavily_search E q search_depth =
     retry_async
       (\<lambda>n. tavily_search_body (TAVILY_API_KEY E) (client_search E n) q search_depth)"

text \<open>An attempt that raised the exception class the policy retries.\<close>

definition raised_TavilySearchError :: "exn + 'a \<Rightarrow> bool" where
  "raised_TavilySearchError r = (case r of Inl e \<Rightarrow> retry_if_TavilySearchError e | Inr v \<Rightarrow> False)"

text \<open>The number of attempts a call made: one more than its sleeps.\<close>

definition attempts :: "(exn + 'a) \<times> nat list \<Rightarrow> nat" where
  "attempts r = Suc (length (snd r))"

section \<open>The pipeline state and its routing\<close>

record AgentState =
  query :: string
  subqueries :: "string list"
  combined_context :: string
  response :: string
  revised_response :: string

text \<open>Lines 61 and 62 of \<open>_search_and_context_node\<close>.\<close>

definition use_advanced :: "string \<Rightarrow> string list \<Rightarrow> bool" where
  "use_advanced subquery subqs = (length (py_split subquery) > 8 \<or> length subqs > 3)"

definition depth :: "string \<Rightarrow> string list \<Rightarrow> string" where
  "depth subquery subqs = (if use_advanced subquery subqs then ''advanced'' else ''basic'')"

text \<open>\<open>_critique_condition\<close> (lines 119 and 120).\<close>

definition critique_condition :: "AgentState \<Rightarrow> string" where
  "critique_condition st =
     (if contains ''inaccurate'' (lower (response st)) then ''search_context'' else ''publish'')"

text \<open>
  The depth rule in the words of the specification, section 4.2: a function of the word
  count of the sub-query and of the number of sub-queries alone.
\<close>

definition depth_rule :: "nat \<Rightarrow> nat \<Rightarrow> string" where
  "depth_rule n_words n_subqueries =
     (if n_words > 8 \<or> n_subqueries > 3 then ''advanced'' else ''basic'')"

section \<open>The generation provider: \<open>LLM\<close>\<close>

text \<open>\<open>str(n)\<close> for an integer.\<close>

fun str_nat :: "nat \<Rightarrow> string" where
  "str_nat n = (if n < 10 then [char_of (48 + n)] else str_nat (n div 10) @ [char_of (48 + n mod 10)])"

definition str_int :: "int \<Rightarrow> string" where
  "str_int i = (if i < 0 then ''-'' @ str_nat (nat (- i)) else str_nat (nat i))"

text \<open>\<open>s.strip()\<close> and \<open>s.rstrip("`")\<close>.\<close>

definition py_strip :: "string \<Rightarrow> string" where
  "py_strip s = rev (dropWhile is_space (rev (dropWhile is_space s)))"

definition rstrip_backticks :: "string \<Rightarrow> string" where
  "rstrip_backticks s = rev (dropWhile (\<lambda>c. c = CHR 0x60) (rev s))"

text \<open>
  \<open>re.sub(r"```(?:json)?\s*", "", s)\<close>: from left to right, every run of three backticks
  is deleted together with the word \<open>json\<close> when it follows and with the white space
  after that.
\<close>

definition after_fence :: "string \<Rightarrow> string" where
  "after_fence s =
     dropWhile is_space (let r = drop 3 s in if prefix ''json'' r then drop 4 r else r)"

function remove_fences :: "string \<Rightarrow> string" where
  "remove_fences [] = []"
| "remove_fences (c # cs) =
     (if prefix [CHR 0x60, CHR 0x60, CHR 0x60] (c # cs) then remove_fences (after_fence (c # cs))
      else c # remove_fences cs)"
  by pat_completeness auto
termination
proof (relation "measure length")
  show "wf (measure length)" by simp
next
  fix c :: char and cs :: string
  assume "prefix [CHR 0x60, CHR 0x60, CHR 0x60] (c # cs)"
  then have "length (drop 3 (c # cs)) < length (c # cs)"
    by (auto simp: prefix_def)
  moreover have "length (after_fence (c # cs)) \<le> length (drop 3 (c # cs))"
    unfolding after_fence_def Let_def
    by (rule order_trans[OF length_dropWhile_le]) auto
  ultimately show "(after_fence (c # cs), c # cs) \<in> measure length" by simp
next
  fix c :: char and cs :: string
  show "(cs, c # cs) \<in> measure length" by simp
qed

text \<open>The prompt of \<open>generate_subqueries\<close> (lines 93 to 111).\<close>

definition subquery_prompt :: "string \<Rightarrow> int \<Rightarrow> string" where
  "subquery_prompt q max_subqueries =
     concat
       [''\<newline>'',
        ''        You are a helpful assistant that splits a complex user query into multiple simpler sub-queries.\<newline>'',
        ''        Only split the query if it contains multiple distinct questions or requests.\<newline>'',
        ''        Don'',
        [CHR 0x27],
        ''t split into more than '',
        str_int max_subqueries,
        '' sub-queries.\<newline>'',
        ''\<newline>'',
        ''        Return your result as a Python list of strings in JSON format.\<newline>'',
        ''        Do not include explanations or formatting.\<newline>'',
        ''\<newline>'',
        ''        Example 1:\<newline>'',
        ''        Input: '',
        [CHR 0x22],
        ''What is LangGraph?'',
        [CHR 0x22],
        ''\<newline>'',
        ''        Output: ['',
        [CHR 0x22],
        ''What is LangGraph?'',
        [CHR 0x22],
        '']\<newline>'',
        ''\<newline>'',
        ''        Example 2:\<newline>'',
        ''        Input: '',
        [CHR 0x22],
        ''Tell me the revenue, total workers, culture and location of company X'',
        [CHR 0x22],
        ''\<newline>'',
        ''        Output: ['',
        [CHR 0x22],
        ''Tell me the revenue of company X'',
        [CHR 0x22],
        '', '',
        [CHR 0x22],
        ''Tell me the total workers of company X'',
        [CHR 0x22],
        '', '',
        [CHR 0x22],
        ''Tell me the culture of company X'',
        [CHR 0x22],
        '', '',
        [CHR 0x22],
        ''Tell me the location of company X'',
        [CHR 0x22],
        '']\<newline>'',
        ''\<newline>'',
        ''        Now, split this query:\<newline>'',
        ''        '',
        [CHR 0x22],
        q,
        [CHR 0x22],
        ''\<newline>'',
        ''        '']"

text \<open>The prompt of \<open>generate_answer\<close> (lines 73 to 75).\<close>

definition answer_prompt :: "string \<Rightarrow> string \<Rightarrow> string" where
  "answer_prompt question context =
     concat
       [''\<newline>'',
        ''                Answer the prompt based on the context.\<newline>'',
        ''Context:\<newline>'',
        context,
        ''\<newline>'',
        ''\<newline>'',
        ''Prompt: '',
        question,
        ''\<newline>'',
        ''            '']"

text \<open>
  \<open>generate_answer\<close>: the call of the provider; an \<open>Exception\<close> is raised again as an
  \<open>Exception\<close> with the message wrapped.
\<close>

definition generate_answer :: "env \<Rightarrow> string \<Rightarrow> string \<Rightarrow> exn + string" where
  "generate_answer E question context =
     (case cohere E (answer_prompt question context) of
        Inl e \<Rightarrow>
          if is_Exception e then Inl (Exception (''[Error calling Cohere: '' @ str_exn e @ '']''))
          else Inl e
      | Inr answer \<Rightarrow> Inr answer)"

text \<open>\<open>isinstance(parsed, list) and all(isinstance(q, str) for q in parsed)\<close>.\<close>

fun is_str :: "json \<Rightarrow> bool" where
  "is_str (JString s) = True"
| "is_str j = False"

fun is_list_of_str :: "json \<Rightarrow> bool" where
  "is_list_of_str (JArray xs) = list_all is_str xs"
| "is_list_of_str j = False"

text \<open>The strings of a parsed list of strings.\<close>

fun str_of :: "json \<Rightarrow> string" where
  "str_of (JString s) = s"
| "str_of j = []"

fun items :: "json \<Rightarrow> json list" where
  "items (JArray xs) = xs"
| "items j = []"

text \<open>Lines 115 and 116: the text given to \<open>json.loads\<close>.\<close>

definition cleaned_response :: "string \<Rightarrow> string" where
  "cleaned_response raw_response = rstrip_backticks (remove_fences (py_strip raw_response))"

text \<open>
  \<open>generate_subqueries\<close> (lines 112 to 122). An \<open>Exception\<close> of the provider or of the
  parser is caught and the original query returned; so it is when the parsed value is not
  a list of strings. An exception that is not an \<open>Exception\<close> leaves the function.
\<close>

definition generate_subqueries :: "env \<Rightarrow> string \<Rightarrow> int \<Rightarrow> exn + string list" where
  "generate_subqueries E q max_subqueries =
     (case cohere E (subquery_prompt q max_subqueries) of
        Inl e \<Rightarrow> if is_Exception e then Inr [q] else Inl e
      | Inr raw_response \<Rightarrow>
          (case json_loads E (cleaned_response raw_response) of
             None \<Rightarrow> Inr [q]
           | Some parsed \<Rightarrow>
               if is_list_of_str parsed
               then Inr (take_upto max_subqueries (map str_of (items parsed)))
               else Inr [q]))"

text \<open>
  What the specification calls parsing the provider's output as a JSON list of strings,
  after stripping code fences: the strings, or nothing when the text is not such a list.
\<close>

definition parsed_strings :: "env \<Rightarrow> string \<Rightarrow> string list option" where
  "parsed_strings E raw_response =
     (case json_loads E (cleaned_response raw_response) of
        None \<Rightarrow> None
      | Some parsed \<Rightarrow> if is_list_of_str parsed then Some (map str_of (items parsed)) else None)"

section \<open>Stub environments\<close>

text \<open>
  A deterministic environment for the examples: the credential is set, the retrieval
  provider finds nothing, the generation provider always answers "inaccurate", and the
  JSON parser rejects every text.
\<close>

definition stub_env :: env where
  "stub_env =
     \<lparr>TAVILY_API_KEY = Some ''tvly-key'',
      client_search = (\<lambda>n q d. Inr \<lparr>results = Some []\<rparr>),
      cohere = (\<lambda>prompt. Inr ''inaccurate''),
      json_loads = (\<lambda>s. None)\<rparr>"

text \<open>A retrieval provider whose first call of every retrieval times out.\<close>

definition flaky_env :: env where
  "flaky_env =
     stub_env\<lparr>client_search :=
       (\<lambda>n q d. if n < 2 then Inl (Exception ''timed out'') else Inr \<lparr>results = Some []\<rparr>)\<rparr>"

text \<open>A retrieval that is cancelled: the exception is not an \<open>Exception\<close>.\<close>

definition cancelled_env :: env where
  "cancelled_env = stub_env\<lparr>client_search := (\<lambda>n q d. Inl (BaseException ''CancelledError''))\<rparr>"

text \<open>
  A provider that answers with the empty JSON list, and a parser that knows this one text.
\<close>

definition empty_list_env :: env where
  "empty_list_env =
     stub_env\<lparr>cohere := (\<lambda>prompt. Inr ''[]''),
              json_loads := (\<lambda>s. if s = ''[]'' then Some (JArray []) else None)\<rparr>"

text \<open>
  A critic that answers "This is inaccurate and misses X.", and a state after the synthesis
  whose answer does not contain the word.
\<close>

definition verdict_env :: env where
  "verdict_env = stub_env\<lparr>cohere := (\<lambda>prompt. Inr ''This is inaccurate and misses X.'')\<rparr>"

definition answered_state :: AgentState where
  "answered_state =
     \<lparr>query = ''What is the capital of France?'',
      subqueries = [''What is the capital of France?''],
      combined_context = ''France: Paris is the capital.'',
      response = ''Paris is the capital of France.'',
      revised_response = []\<rparr>"

section \<open>The nodes of the pipeline\<close>

text \<open>
  A node returns a dictionary with one key, the field of the state it overwrites; an
  exception of a node leaves the run.
\<close>

datatype update =
    Subqueries "string list"
  | Combined_context string
  | Response string
  | Revised_response string

fun update_key :: "update \<Rightarrow> string" where
  "update_key (Subqueries qs) = ''subqueries''"
| "update_key (Combined_context c) = ''combined_context''"
| "update_key (Response r) = ''response''"
| "update_key (Revised_response v) = ''revised_response''"

fun apply_update :: "update \<Rightarrow> AgentState \<Rightarrow> AgentState" where
  "apply_update (Subqueries qs) st = st\<lparr>subqueries := qs\<rparr>"
| "apply_update (Combined_context c) st = st\<lparr>combined_context := c\<rparr>"
| "apply_update (Response r) st = st\<lparr>response := r\<rparr>"
| "apply_update (Revised_response v) st = st\<lparr>revised_response := v\<rparr>"

text \<open>\<open>_query_parser_node\<close>: the default bound of \<open>generate_subqueries\<close> is 15.\<close>

definition query_parser_node :: "env \<Rightarrow> AgentState \<Rightarrow> exn + update" where
  "query_parser_node E st =
     (case generate_subqueries E (query st) 15 of
        Inl e \<Rightarrow> Inl e
      | Inr qs \<Rightarrow> Inr (Subqueries qs))"

text \<open>
  The loop of \<open>_search_and_context_node\<close>: one retrieval for each sub-query, in order,
  with the depth chosen from the sub-query and the whole list; the first retrieval that
  raises ends the node. The sleeps of the retries are not recorded here.
\<close>

fun search_each :: "env \<Rightarrow> string list \<Rightarrow> string list \<Rightarrow> exn + string list" where
  "search_each E subqs [] = Inr []"
| "search_each E subqs (subquery # remaining) =
     (case fst (tavily_search E subquery (depth subquery subqs)) of
        Inl e \<Rightarrow> Inl e
      | Inr snippet \<Rightarrow>
          (case search_each E subqs remaining of
             Inl e \<Rightarrow> Inl e
           | Inr snippets \<Rightarrow> Inr (snippet # snippets)))"

definition search_and_context_node :: "env \<Rightarrow> AgentState \<Rightarrow> exn + update" where
  "search_and_context_node E st =
     (case search_each E (subqueries st) (subqueries st) of
        Inl e \<Rightarrow> Inl e
      | Inr snippets \<Rightarrow> Inr (Combined_context (join ''\<newline>\<newline>'' snippets)))"

text \<open>\<open>_llm_node\<close>: joining the characters of the answer gives the answer back.\<close>

definition llm_node :: "env \<Rightarrow> AgentState \<Rightarrow> exn + update" where
  "llm_node E st =
     (case generate_answer E (query st) (combined_context st) of
        Inl e \<Rightarrow> Inl e
      | Inr answer \<Rightarrow> Inr (Response answer))"

text \<open>The prompt of \<open>_critique_and_revise_node\<close> (lines 87 to 100).\<close>

definition critique_prompt :: "AgentState \<Rightarrow> string" where
  "critique_prompt st =
     concat
       [''\<newline>'',
        ''        You are a helpful assistant tasked with reviewing and improving an AI-generated response.\<newline>'',
        ''        Here is the original query:\<newline>'',
        ''        '',
        query st,
        ''\<newline>'',
        ''\<newline>'',
        ''        Here is the context provided for answering:\<newline>'',
        ''        '',
        combined_context st,
        ''\<newline>'',
        ''\<newline>'',
        ''        And here is the response to review:\<newline>'',
        ''        '',
        response st,
        ''\<newline>'',
        ''\<newline>'',
        ''        Please check the response for accuracy, clarity, and completeness. If the original response is already excellent, return the word ok.\<newline>'',
        ''        Otherwise, return the word inaccurate.\<newline>'',
        ''        '']"

text \<open>\<open>_critique_and_revise_node\<close>: the verdict is stored in \<open>revised_response\<close>.\<close>

definition critique_and_revise_node :: "env \<Rightarrow> AgentState \<Rightarrow> exn + update" where
  "critique_and_revise_node E st =
     (case generate_answer E (critique_prompt st) (combined_context st) of
        Inl e \<Rightarrow> Inl e
      | Inr verdict \<Rightarrow> Inr (Revised_response verdict))"

text \<open>\<open>_publish_node\<close>: it prints the response and returns it.\<close>

definition publish_node :: "env \<Rightarrow> AgentState \<Rightarrow> exn + update" where
  "publish_node E st = Inr (Response (response st))"

section \<open>The graph: \<open>_build_graph\<close>\<close>

text \<open>
  The builder of the graph library records the nodes, the unconditional edges and the
  conditional edges (a source, a routing function and a map from its labels to nodes).
\<close>

record StateGraph =
  nodes :: "(string \<times> (env \<Rightarrow> AgentState \<Rightarrow> exn + update)) list"
  edges :: "(string \<times> string) list"
  branches :: "(string \<times> (AgentState \<Rightarrow> string) \<times> (string \<times> string) list) list"

definition START :: string where
  "START = ''__start__''"

definition END :: string where
  "END = ''__end__''"

definition new_graph :: StateGraph where
  "new_graph = \<lparr>nodes = [], edges = [], branches = []\<rparr>"

definition add_node :: "string \<Rightarrow> (env \<Rightarrow> AgentState \<Rightarrow> exn + update) \<Rightarrow> StateGraph \<Rightarrow> StateGraph" where
  "add_node name fn g = g\<lparr>nodes := nodes g @ [(name, fn)]\<rparr>"

definition add_edge :: "string \<Rightarrow> string \<Rightarrow> StateGraph \<Rightarrow> StateGraph" where
  "add_edge a b g = g\<lparr>edges := edges g @ [(a, b)]\<rparr>"

definition add_conditional_edges ::
  "string \<Rightarrow> (AgentState \<Rightarrow> string) \<Rightarrow> (string \<times> string) list \<Rightarrow> StateGraph \<Rightarrow> StateGraph" where
  "add_conditional_edges source path path_map g =
     g\<lparr>branches := branches g @ [(source, path, path_map)]\<rparr>"

text \<open>The calls of lines 134 to 155, in their order.\<close>

definition build_graph :: StateGraph where
  "build_graph =
     foldl (\<lambda>builder call. call builder) new_graph
       [add_node ''parse'' query_parser_node,
        add_node ''search_context'' search_and_context_node,
        add_node ''llm'' llm_node,
        add_node ''critique_and_revise'' critique_and_revise_node,
        add_node ''publish'' publish_node,
        add_edge START ''parse'',
        add_edge ''parse'' ''search_context'',
        add_edge ''search_context'' ''llm'',
        add_edge ''llm'' ''critique_and_revise'',
        add_edge ''critique_and_revise'' ''publish'',
        add_edge ''publish'' END,
        add_conditional_edges ''critique_and_revise'' critique_condition
          [(''search_context'', ''search_context''), (''publish'', ''publish'')]]"

text \<open>A node with an unconditional edge and a conditional edge.\<close>

definition has_both_edges :: "StateGraph \<Rightarrow> string \<Rightarrow> bool" where
  "has_both_edges g n = (n \<in> set (map fst (edges g)) \<and> n \<in> set (map fst (branches g)))"

text \<open>
  \<open>compile\<close> belongs to the graph library and is not part of the repository. The model
  keeps the validation the library performs: every source of an edge is a declared node
  or the start, the start has an edge, and every target is a declared node or the end.
  The library has no check for a node with both kinds of edges, and the repository defines
  no error for it.
\<close>

definition edge_sources :: "StateGraph \<Rightarrow> string list" where
  "edge_sources g = map fst (edges g) @ map fst (branches g)"

definition edge_targets :: "StateGraph \<Rightarrow> string list" where
  "edge_targets g =
     map snd (edges g) @ concat (map (\<lambda>(source, path, path_map). map snd path_map) (branches g))"

definition compile_graph :: "StateGraph \<Rightarrow> exn + StateGraph" where
  "compile_graph g =
     (let names = map fst (nodes g) in
      case find (\<lambda>s. s \<notin> set names \<and> s \<noteq> START) (edge_sources g) of
        Some s \<Rightarrow> Inl (Exception (''Found edge starting at unknown node '' @ s))
      | None \<Rightarrow>
          if START \<notin> set (edge_sources g) then Inl (Exception ''Graph must have an entrypoint'')
          else (case find (\<lambda>t. t \<notin> set names \<and> t \<noteq> END) (edge_targets g) of
                  Some t \<Rightarrow> Inl (Exception (''Found edge ending at unknown node '' @ t))
                | None \<Rightarrow> Inr g))"

section \<open>Running the graph\<close>

text \<open>
  The executor belongs to the graph library as well. It works in steps: every scheduled
  node runs on the state of the step, the updates are merged (two updates of one key in
  one step are an error), and the nodes of the next step are the targets of the edges of
  the nodes that ran, without the end. The flag \<open>precedence\<close> chooses between the two
  readings of a node with both kinds of edges: when it is set, the conditional edge alone
  is followed; when it is not, the unconditional edges are followed as well.
\<close>

definition static_targets :: "StateGraph \<Rightarrow> string \<Rightarrow> string list" where
  "static_targets g n = map snd (filter (\<lambda>(a, b). a = n) (edges g))"

text \<open>The targets of the conditional edges of a node: a label outside the map is a key error.\<close>

fun branch_targets ::
  "(string \<times> (AgentState \<Rightarrow> string) \<times> (string \<times> string) list) list \<Rightarrow> string \<Rightarrow> AgentState
     \<Rightarrow> exn + string list" where
  "branch_targets [] n st = Inr []"
| "branch_targets ((source, path, path_map) # bs) n st =
     (if source = n
      then (case map_of path_map (path st) of
              None \<Rightarrow> Inl (KeyError (path st))
            | Some t \<Rightarrow>
                (case branch_targets bs n st of Inl e \<Rightarrow> Inl e | Inr ts \<Rightarrow> Inr (t # ts)))
      else branch_targets bs n st)"

definition node_targets :: "bool \<Rightarrow> StateGraph \<Rightarrow> string \<Rightarrow> AgentState \<Rightarrow> exn + string list" where
  "node_targets precedence g n st =
     (case branch_targets (branches g) n st of
        Inl e \<Rightarrow> Inl e
      | Inr ts \<Rightarrow>
          if precedence \<and> n \<in> set (map fst (branches g)) then Inr ts
          else Inr (static_targets g n @ ts))"

fun next_nodes :: "bool \<Rightarrow> StateGraph \<Rightarrow> string list \<Rightarrow> AgentState \<Rightarrow> exn + string list" where
  "next_nodes precedence g [] st = Inr []"
| "next_nodes precedence g (n # ns) st =
     (case node_targets precedence g n st of
        Inl e \<Rightarrow> Inl e
      | Inr ts \<Rightarrow>
          (case next_nodes precedence g ns st of
             Inl e \<Rightarrow> Inl e
           | Inr later \<Rightarrow> Inr (ts @ later)))"

fun run_nodes :: "env \<Rightarrow> StateGraph \<Rightarrow> string list \<Rightarrow> AgentState \<Rightarrow> exn + update list" where
  "run_nodes E g [] st = Inr []"
| "run_nodes E g (n # ns) st =
     (case map_of (nodes g) n of
        None \<Rightarrow> Inl (KeyError n)
      | Some fn \<Rightarrow>
          (case fn E st of
             Inl e \<Rightarrow> Inl e
           | Inr u \<Rightarrow>
               (case run_nodes E g ns st of
                  Inl e \<Rightarrow> Inl e
                | Inr us \<Rightarrow> Inr (u # us))))"

definition superstep ::
  "bool \<Rightarrow> env \<Rightarrow> StateGraph \<Rightarrow> string list \<Rightarrow> AgentState \<Rightarrow> exn + string list \<times> AgentState" where
  "superstep precedence E g active st =
     (case run_nodes E g active st of
        Inl e \<Rightarrow> Inl e
      | Inr us \<Rightarrow>
          if \<not> distinct (map update_key us) then Inl (Exception ''InvalidUpdateError'')
          else
            (let st' = foldl (\<lambda>s u. apply_update u s) st us in
             case next_nodes precedence g active st' of
               Inl e \<Rightarrow> Inl e
             | Inr ts \<Rightarrow> Inr (remdups (filter (\<lambda>t. t \<noteq> END) ts), st')))"

text \<open>
  The outcome of a run: it finished with no node left to run, a node or the executor
  raised, or the steps allowed to the executor were used up. The trace lists the nodes
  of every step.
\<close>

datatype run_result = Done AgentState | Raised exn | Out_of_steps AgentState

fun pregel ::
  "bool \<Rightarrow> env \<Rightarrow> StateGraph \<Rightarrow> nat \<Rightarrow> string list \<Rightarrow> AgentState \<Rightarrow> string list list
     \<Rightarrow> run_result \<times> string list list" where
  "pregel precedence E g 0 active st trace =
     (if active = [] then (Done st, trace) else (Out_of_steps st, trace))"
| "pregel precedence E g (Suc k) active st trace =
     (if active = [] then (Done st, trace)
      else (case superstep precedence E g active st of
              Inl e \<Rightarrow> (Raised e, trace @ [active])
            | Inr (active', st') \<Rightarrow> pregel precedence E g k active' st' (trace @ [active])))"

text \<open>A run starts at the targets of the start, on the state that holds the query.\<close>

definition initial_state :: "string \<Rightarrow> AgentState" where
  "initial_state q =
     \<lparr>query = q, subqueries = [], combined_context = [], response = [], revised_response = []\<rparr>"

definition invoke :: "bool \<Rightarrow> env \<Rightarrow> StateGraph \<Rightarrow> nat \<Rightarrow> string \<Rightarrow> run_result \<times> string list list" where
  "invoke precedence E g steps q =
     pregel precedence E g steps (static_targets g START) (initial_state q) []"

text \<open>The retrieval passes of a trace: the steps in which the retrieval node ran.\<close>

definition retrieval_passes :: "string list list \<Rightarrow> nat" where
  "retrieval_passes trace = length (filter (\<lambda>step. ''search_context'' \<in> set step) trace)"

text \<open>A generation provider whose every answer contains the word, in any case.\<close>

definition always_inaccurate :: "env \<Rightarrow> bool" where
  "always_inaccurate E = (\<forall>prompt. \<exists>s. cohere E prompt = Inr s \<and> contains ''inaccurate'' (lower s))"

text \<open>The graph before the last call of \<open>_build_graph\<close>: the nodes and the unconditional edges.\<close>

definition before_conditional :: StateGraph where
  "before_conditional =
     \<lparr>nodes = nodes build_graph, edges = edges build_graph, branches = []\<rparr>"

text \<open>
  A retry is pending in a step when a node on the way to the critique is scheduled, or the
  critique is scheduled on a response that contains the word.
\<close>

definition retry_pending :: "string list \<Rightarrow> AgentState \<Rightarrow> bool" where
  "retry_pending active st \<longleftrightarrow>
     ''parse'' \<in> set active \<or> ''search_context'' \<in> set active \<or> ''llm'' \<in> set active \<or>
     (''critique_and_revise'' \<in> set active \<and> contains ''inaccurate'' (lower (response st)))"

text \<open>
  An example run: the query, and the state in which the run on the stub environment stays
  from its first critique on.
\<close>

definition example_query :: string where
  "example_query = ''What is LangGraph?''"

definition looping_state :: AgentState where
  "looping_state =
     \<lparr>query = example_query, subqueries = [example_query],
      combined_context = ''No relevant information found.'',
      response = ''inaccurate'', revised_response = ''inaccurate''\<rparr>"


section \<open>The evidence filter in the words of the specification\<close>





section \<open>Depth selection\<close>

lemma depth_cases:
  "depth subquery subqs = ''advanced'' \<or> depth subquery subqs = ''basic''"
  by (simp add: depth_def)

lemma no_break_space_separates_words:
  "py_split (''one'' @ [CHR 0xA0] @ ''two'' @ [CHR 0x85] @ ''three'') = [''one'', ''two'', ''three'']"
  by code_simp

lemma nine_words_with_no_break_spaces:
  "depth (''a'' @ [CHR 0xA0] @ ''b'' @ [CHR 0xA0] @ ''c'' @ [CHR 0xA0] @ ''d'' @ [CHR 0xA0] @ ''e'' @
          [CHR 0xA0] @ ''f'' @ [CHR 0xA0] @ ''g'' @ [CHR 0xA0] @ ''h'' @ [CHR 0xA0] @ ''i'') [''q'']
     = ''advanced''"
  by code_simp

lemma lower_capital_letters: "lower (''AZ'' @ [CHR 0xC9, CHR 0xD7, CHR 0xDF]) = ''az'' @ [CHR 0xE9, CHR 0xD7, CHR 0xDF]"
  by code_simp

text \<open>
  C8: the depth chosen for a sub-query is the specification's rule applied to the number
  of words of the sub-query and the number of sub-queries, and to nothing else: advanced
  when there are more than 8 words or more than 3 sub-queries, basic otherwise. At the
  boundaries, a sub-query of 8 words gets basic and one of 9 words advanced (alone in its
  list), and a one-word sub-query gets basic among 3 sub-queries and advanced among 4.
\<close>

theorem depth_is_depth_rule:
  "depth subquery subqs = depth_rule (length (py_split subquery)) (length subqs) \<and>
   depth_rule 8 3 = ''basic'' \<and> depth_rule 9 3 = ''advanced'' \<and> depth_rule 8 4 = ''advanced'' \<and>
   depth ''one two three four five six seven eight''
     [''one two three four five six seven eight''] = ''basic'' \<and>
   depth ''one two three four five six seven eight nine''
     [''one two three four five six seven eight nine''] = ''advanced'' \<and>
   depth ''one'' [''one'', ''two'', ''three''] = ''basic'' \<and>
   depth ''one'' [''one'', ''two'', ''three'', ''four''] = ''advanced''"
proof -
  have rule: "depth subquery subqs = depth_rule (length (py_split subquery)) (length subqs)"
    by (simp add: depth_def use_advanced_def depth_rule_def)
  have bounds: "depth_rule 8 3 = ''basic''" "depth_rule 9 3 = ''advanced''"
    "depth_rule 8 4 = ''advanced''"
    by (simp_all add: depth_rule_def)
  have w8: "depth ''one two three four five six seven eight''
     [''one two three four five six seven eight''] = ''basic''"
    by code_simp
  have w9: "depth ''one two three four five six seven eight nine''
     [''one two three four five six seven eight nine''] = ''advanced''"
    by code_simp
  have s3: "depth ''one'' [''one'', ''two'', ''three''] = ''basic''"
    by code_simp
  have s4: "depth ''one'' [''one'', ''two'', ''three'', ''four''] = ''advanced''"
    by code_simp
  from rule bounds w8 w9 s3 s4 show ?thesis by blast
qed

section \<open>Routing after the critique\<close>

lemma critique_condition_labels:
  "critique_condition st = ''search_context'' \<or> critique_condition st = ''publish''"
  by (simp add: critique_condition_def)

lemma critique_condition_retry_iff:
  "critique_condition st = ''search_context'' \<longleftrightarrow> contains ''inaccurate'' (lower (response st))"
  by (simp add: critique_condition_def)

lemma critique_condition_revised_response:
  "critique_condition (st\<lparr>revised_response := v\<rparr>) = critique_condition st"
  by (simp add: critique_condition_def)

lemma publish_label: "critique_condition answered_state = ''publish''"
  unfolding answered_state_def by code_simp

text \<open>
  C1: the routing reads the field \<open>response\<close>, the synthesised answer, and not the field
  \<open>revised_response\<close>, where the critique node stores the critic's verdict. On a state
  whose answer is "Paris is the capital of France.", the critique node stores the verdict
  "This is inaccurate and misses X.", which contains the word, and the routing on the
  state so updated returns the publish label.
\<close>

theorem critique_condition_ignores_verdict:
  "critique_and_revise_node verdict_env answered_state =
     Inr (Revised_response ''This is inaccurate and misses X.'') \<and>
   contains ''inaccurate'' (lower ''This is inaccurate and misses X.'') \<and>
   critique_condition
     (apply_update (Revised_response ''This is inaccurate and misses X.'') answered_state) = ''publish''"
proof -
  have "critique_and_revise_node verdict_env answered_state =
     Inr (Revised_response ''This is inaccurate and misses X.'')"
    by (simp add: critique_and_revise_node_def generate_answer_def verdict_env_def stub_env_def)
  moreover have "contains ''inaccurate'' (lower ''This is inaccurate and misses X.'')"
    by code_simp
  moreover have "critique_condition
     (apply_update (Revised_response ''This is inaccurate and misses X.'') answered_state) = ''publish''"
    by (simp add: critique_condition_revised_response publish_label)
  ultimately show ?thesis by blast
qed

section \<open>Binary64 rounding\<close>

lemma pow2_powr: "pow2 k = 2 powr (real_of_int k)"
proof (cases "0 \<le> k")
  case True
  then show ?thesis by (simp add: pow2_def powr_realpow[symmetric])
next
  case False
  then have "pow2 k = 1 / 2 ^ nat (- k)" by (simp add: pow2_def)
  also have "\<dots> = 1 / 2 powr (real (nat (- k)))" by (simp add: powr_realpow)
  also have "\<dots> = 2 powr (real_of_int k)" using False by (simp add: powr_minus_divide[symmetric])
  finally show ?thesis .
qed

lemma pow2_pos [simp]: "0 < pow2 k"
  by (simp add: pow2_powr)

lemma pow2_nonneg [simp]: "0 \<le> pow2 k"
  by (simp add: pow2_powr)

lemma pow2_add: "pow2 (a + b) = pow2 a * pow2 b"
  by (simp add: pow2_powr powr_add)

lemma pow2_Suc: "pow2 (k + 1) = 2 * pow2 k"
  by (simp add: pow2_add) (simp add: pow2_def)

lemma pow2_pred: "pow2 (k - 1) = pow2 k / 2"
  using pow2_Suc[of "k - 1"] by simp

lemma pow2_mono: "a \<le> b \<Longrightarrow> pow2 a \<le> pow2 b"
  by (simp add: pow2_powr)

lemma pow2_less_iff: "pow2 a < pow2 b \<longleftrightarrow> a < b"
  by (simp add: pow2_powr)

lemma pow2_le_iff: "pow2 a \<le> pow2 b \<longleftrightarrow> a \<le> b"
  by (simp add: pow2_powr)

lemma pow2_0 [simp]: "pow2 0 = 1"
  by (simp add: pow2_def)

lemma expo_bracket:
  "0 < x \<Longrightarrow> pow2 (- int n) \<le> x \<Longrightarrow> x < pow2 (int n + 1) \<Longrightarrow>
     pow2 (expo n x) \<le> x \<and> x < pow2 (expo n x + 1)"
proof (induction n arbitrary: x)
  case 0
  then show ?case by simp
next
  case (Suc n)
  show ?case
  proof (cases "2 \<le> x")
    case True
    have a: "pow2 (- int n) \<le> x / 2"
    proof -
      have "pow2 (- int n) \<le> pow2 0" by (rule pow2_mono) simp
      with True show ?thesis by simp
    qed
    have b: "x / 2 < pow2 (int n + 1)"
      using Suc.prems(3) pow2_Suc[of "int n + 1"] by (simp add: add.commute)
    from Suc.IH[OF _ a b] Suc.prems(1)
    have "pow2 (expo n (x / 2)) \<le> x / 2" "x / 2 < pow2 (expo n (x / 2) + 1)" by simp_all
    with True show ?thesis
      using pow2_Suc[of "expo n (x / 2)"] pow2_Suc[of "expo n (x / 2) + 1"] by simp
  next
    case False
    show ?thesis
    proof (cases "x < 1")
      case True
      have a: "pow2 (- int n) \<le> x * 2"
        using Suc.prems(2) pow2_Suc[of "- int (Suc n)"] by simp
      have b: "x * 2 < pow2 (int n + 1)"
      proof -
        have "pow2 1 \<le> pow2 (int n + 1)" by (rule pow2_mono) simp
        moreover have "pow2 1 = 2" by (simp add: pow2_def)
        ultimately show ?thesis using True by simp
      qed
      from Suc.IH[OF _ a b] Suc.prems(1)
      have "pow2 (expo n (x * 2)) \<le> x * 2" "x * 2 < pow2 (expo n (x * 2) + 1)" by simp_all
      with True False show ?thesis
        using pow2_pred[of "expo n (x * 2)"] pow2_Suc[of "expo n (x * 2)"] by simp
    next
      case ge1: False
      with False show ?thesis by (simp add: pow2_def)
    qed
  qed
qed

lemma expo_tiny: "0 < x \<Longrightarrow> x < pow2 (- int n) \<Longrightarrow> expo n x = - int n"
proof (induction n arbitrary: x)
  case 0
  then show ?case by simp
next
  case (Suc n)
  have "pow2 (- int (Suc n)) \<le> pow2 0" by (rule pow2_mono) simp
  with Suc.prems have lt: "x < 1" by simp
  have "x * 2 < pow2 (- int n)"
    using Suc.prems(2) pow2_Suc[of "- int (Suc n)"] by simp
  from Suc.IH[OF _ this] Suc.prems(1) have "expo n (x * 2) = - int n" by simp
  with lt show ?case by simp
qed

lemma exponent_props:
  assumes "x \<noteq> 0" "\<bar>x\<bar> < pow2 1101"
  shows "- 1022 \<le> exponent x" "\<bar>x\<bar> < pow2 (exponent x + 1)"
    "pow2 (exponent x) \<le> \<bar>x\<bar> \<or> exponent x = - 1022"
proof -
  show "- 1022 \<le> exponent x" by (simp add: exponent_def)
  have pos: "0 < \<bar>x\<bar>" using assms(1) by simp
  show "\<bar>x\<bar> < pow2 (exponent x + 1)" "pow2 (exponent x) \<le> \<bar>x\<bar> \<or> exponent x = - 1022"
  proof -
    have "\<bar>x\<bar> < pow2 (exponent x + 1) \<and> (pow2 (exponent x) \<le> \<bar>x\<bar> \<or> exponent x = - 1022)"
    proof (cases "pow2 (- int 1100) \<le> \<bar>x\<bar>")
      case True
      from assms(2) have "\<bar>x\<bar> < pow2 (int 1100 + 1)" by simp
      from expo_bracket[OF pos True this]
      have br: "pow2 (expo 1100 \<bar>x\<bar>) \<le> \<bar>x\<bar>" "\<bar>x\<bar> < pow2 (expo 1100 \<bar>x\<bar> + 1)" by simp_all
      show ?thesis
      proof (cases "- 1022 \<le> expo 1100 \<bar>x\<bar>")
        case True
        then have "exponent x = expo 1100 \<bar>x\<bar>" by (simp add: exponent_def)
        with br show ?thesis by simp
      next
        case False
        then have e: "exponent x = - 1022" by (simp add: exponent_def)
        from False have "pow2 (expo 1100 \<bar>x\<bar> + 1) \<le> pow2 (- 1021)" by (intro pow2_mono) simp
        with br(2) e show ?thesis by simp
      qed
    next
      case False
      then have lt: "\<bar>x\<bar> < pow2 (- int 1100)" by simp
      from expo_tiny[OF pos lt] have e: "exponent x = - 1022" by (simp add: exponent_def)
      have "pow2 (- int 1100) \<le> pow2 (- 1021)" by (intro pow2_mono) simp
      with lt e show ?thesis by simp
    qed
    then show "\<bar>x\<bar> < pow2 (exponent x + 1)" "pow2 (exponent x) \<le> \<bar>x\<bar> \<or> exponent x = - 1022"
      by simp_all
  qed
qed

lemma exponent_unique:
  assumes "x \<noteq> 0" "\<bar>x\<bar> < pow2 1101" "- 1022 \<le> E" "\<bar>x\<bar> < pow2 (E + 1)"
    "pow2 E \<le> \<bar>x\<bar> \<or> E = - 1022"
  shows "exponent x = E"
proof -
  note p = exponent_props[OF assms(1,2)]
  have "exponent x \<le> E"
  proof (cases "exponent x = - 1022")
    case True
    with assms(3) show ?thesis by simp
  next
    case False
    with p(3) have "pow2 (exponent x) \<le> \<bar>x\<bar>" by simp
    with assms(4) have "pow2 (exponent x) < pow2 (E + 1)" by simp
    then show ?thesis by (simp add: pow2_less_iff)
  qed
  moreover have "E \<le> exponent x"
  proof (cases "E = - 1022")
    case True
    with p(1) show ?thesis by simp
  next
    case False
    with assms(5) have "pow2 E \<le> \<bar>x\<bar>" by simp
    with p(2) have "pow2 E < pow2 (exponent x + 1)" by simp
    then show ?thesis by (simp add: pow2_less_iff)
  qed
  ultimately show ?thesis by simp
qed

lemma round_even_of_int [simp]: "round_even (of_int n) = n"
  by (simp add: round_even_def)

lemma round_even_ge: "of_int k \<le> y \<Longrightarrow> k \<le> round_even y"
proof -
  assume "of_int k \<le> y"
  then have "k \<le> \<lfloor>y\<rfloor>" by (simp add: le_floor_iff)
  moreover have "\<lfloor>y\<rfloor> \<le> round_even y" by (simp add: round_even_def Let_def)
  ultimately show ?thesis by simp
qed

lemma round_even_le: "y \<le> of_int k \<Longrightarrow> round_even y \<le> k"
proof -
  assume a: "y \<le> of_int k"
  have f: "\<lfloor>y\<rfloor> \<le> k" using floor_mono[OF a] by simp
  show ?thesis
  proof (cases "\<lfloor>y\<rfloor> = k")
    case True
    with a have "y = of_int k" using of_int_floor_le[of y] by simp
    then show ?thesis by simp
  next
    case False
    with f have "\<lfloor>y\<rfloor> + 1 \<le> k" by simp
    then show ?thesis by (auto simp: round_even_def Let_def)
  qed
qed


lemma pow2_53: "pow2 53 = 2 ^ 53" "pow2 52 = 2 ^ 52"
  by (simp_all add: pow2_def)

lemma double_0 [simp]: "double 0 = 0"
  by (simp add: double_def)

text \<open>
  A binary64 number is its own binary64 value: reading a score or a bound that is a
  binary64 number already changes nothing.
\<close>

lemma double_idem:
  assumes "\<bar>x\<bar> < pow2 1024"
  shows "double (double x) = double x"
proof (cases "double x = 0")
  case True
  then show ?thesis by simp
next
  case False
  then have x0: "x \<noteq> 0" by auto
  define e where "e = exponent x"
  define u where "u = pow2 (e - 52)"
  define n where "n = round_even (x / u)"
  have upos: "0 < u" by (simp add: u_def)
  have y: "double x = of_int n * u"
    using x0 by (simp add: double_def Let_def e_def u_def n_def)
  with False have n0: "n \<noteq> 0" by auto
  have big: "\<bar>x\<bar> < pow2 1101"
  proof -
    have "pow2 1024 \<le> pow2 1101" by (rule pow2_mono) simp
    with assms show ?thesis by simp
  qed
  note p = exponent_props[OF x0 big, folded e_def]
  have e_up: "e < 1024"
  proof (cases "e = - 1022")
    case True
    then show ?thesis by simp
  next
    case False
    with p(3) have "pow2 e \<le> \<bar>x\<bar>" by simp
    with assms have "pow2 e < pow2 1024" by simp
    then show ?thesis by (simp add: pow2_less_iff)
  qed
  have u53: "pow2 (e + 1) = 2 ^ 53 * u"
    using pow2_add[of "e - 52" 53] by (simp add: u_def pow2_53 mult.commute add.commute)
  have u52: "pow2 e = 2 ^ 52 * u"
    using pow2_add[of "e - 52" 52] by (simp add: u_def pow2_53 mult.commute)
  have q_lt: "\<bar>x / u\<bar> < 2 ^ 53"
    using p(2) upos by (simp add: u53 pos_divide_less_eq)
  have n_le: "n \<le> 2 ^ 53"
  proof -
    from q_lt have "x / u \<le> 2 ^ 53" by linarith
    then have "x / u \<le> of_int (2 ^ 53)" by simp
    from round_even_le[OF this] show ?thesis by (simp add: n_def)
  qed
  have n_ge: "- (2 ^ 53) \<le> n"
  proof -
    from q_lt have "- (2 ^ 53) \<le> x / u" by linarith
    then have "of_int (- (2 ^ 53)) \<le> x / u" by simp
    from round_even_ge[OF this] show ?thesis by (simp add: n_def)
  qed
  have n_abs: "\<bar>n\<bar> \<le> 2 ^ 53" using n_le n_ge by simp
  have n_norm: "2 ^ 52 \<le> \<bar>n\<bar>" if "pow2 e \<le> \<bar>x\<bar>"
  proof -
    from that upos have q: "2 ^ 52 \<le> \<bar>x / u\<bar>" by (simp add: u52 pos_le_divide_eq)
    show ?thesis
    proof (cases "0 \<le> x")
      case True
      with upos have "0 \<le> x / u" by simp
      with q have "2 ^ 52 \<le> x / u" by linarith
      then have "of_int (2 ^ 52) \<le> x / u" by simp
      from round_even_ge[OF this] have "2 ^ 52 \<le> n" by (simp add: n_def)
      then show ?thesis by linarith
    next
      case False
      with upos have "x / u \<le> 0" by (simp add: divide_nonpos_pos)
      with q have "x / u \<le> - (2 ^ 52)" by linarith
      then have "x / u \<le> of_int (- (2 ^ 52))" by simp
      from round_even_le[OF this] have "n \<le> - (2 ^ 52)" by (simp add: n_def)
      then show ?thesis by linarith
    qed
  qed
  have yabs: "\<bar>double x\<bar> = of_int \<bar>n\<bar> * u"
    using upos by (simp add: y abs_mult)
  show ?thesis
  proof (cases "\<bar>n\<bar> = 2 ^ 53")
    case True
    have ay: "\<bar>double x\<bar> = pow2 (e + 1)" by (simp add: yabs True u53)
    have "exponent (double x) = e + 1"
    proof (rule exponent_unique[OF False])
      show "\<bar>double x\<bar> < pow2 1101" unfolding ay using e_up by (simp add: pow2_less_iff)
      show "- 1022 \<le> e + 1" using p(1) by simp
      show "\<bar>double x\<bar> < pow2 (e + 1 + 1)" unfolding ay by (simp add: pow2_less_iff)
      show "pow2 (e + 1) \<le> \<bar>double x\<bar> \<or> e + 1 = - 1022" by (simp add: ay)
    qed
    moreover have "pow2 (e + 1 - 52) = 2 * u"
      using pow2_Suc[of "e - 52"] by (simp add: u_def)
    moreover have "of_int n * u / (2 * u) = of_int (n div 2)"
    proof -
      from True have "n = 2 ^ 53 \<or> n = - (2 ^ 53)" by linarith
      then have "even n" by auto
      then have "real_of_int n = 2 * of_int (n div 2)" by (metis of_int_mult of_int_numeral dvd_mult_div_cancel)
      with upos show ?thesis by simp
    qed
    moreover have "real_of_int (n div 2) * (2 * u) = of_int n * u"
    proof -
      from True have "n = 2 ^ 53 \<or> n = - (2 ^ 53)" by linarith
      then have "even n" by auto
      then have "real_of_int n = 2 * of_int (n div 2)" by (metis of_int_mult of_int_numeral dvd_mult_div_cancel)
      then show ?thesis by simp
    qed
    ultimately show ?thesis
      using False by (simp add: double_def[of "double x"] Let_def) (simp add: y)
  next
    case small: False
    with n_abs have lt: "\<bar>n\<bar> < 2 ^ 53" by simp
    have ay1: "\<bar>double x\<bar> < pow2 (e + 1)"
    proof -
      from lt have "real_of_int \<bar>n\<bar> < 2 ^ 53" by (metis of_int_less_iff of_int_numeral of_int_power)
      with upos show ?thesis by (simp add: yabs u53)
    qed
    have "exponent (double x) = e"
    proof (rule exponent_unique[OF False])
      have "pow2 (e + 1) \<le> pow2 1101" using e_up by (intro pow2_mono) simp
      with ay1 show "\<bar>double x\<bar> < pow2 1101" by simp
      show "- 1022 \<le> e" by (rule p(1))
      show "\<bar>double x\<bar> < pow2 (e + 1)" by (rule ay1)
      show "pow2 e \<le> \<bar>double x\<bar> \<or> e = - 1022"
      proof (cases "e = - 1022")
        case True
        then show ?thesis by simp
      next
        case False
        with p(3) have "pow2 e \<le> \<bar>x\<bar>" by simp
        from n_norm[OF this] have "(2::real) ^ 52 \<le> of_int \<bar>n\<bar>"
          by (metis of_int_le_iff of_int_numeral of_int_power)
        with upos show ?thesis by (simp add: yabs u52)
      qed
    qed
    moreover have "of_int n * u / u = real_of_int n" using upos by simp
    ultimately show ?thesis
      using False by (simp add: double_def[of "double x"] Let_def u_def[symmetric]) (simp add: y)
  qed
qed

lemma double_nonneg: "0 \<le> x \<Longrightarrow> 0 \<le> double x"
proof (cases "x = 0")
  case True
  then show ?thesis by simp
next
  case False
  assume "0 \<le> x"
  then have "of_int 0 \<le> x / pow2 (exponent x - 52)"
    by (simp add: zero_le_divide_iff)
  from round_even_ge[OF this] have "0 \<le> round_even (x / pow2 (exponent x - 52))" .
  with False show ?thesis by (simp add: double_def Let_def)
qed

lemma double_bound_nonneg: "0 \<le> double 0.08" "0 \<le> double (2 / 25)"
  by (rule double_nonneg, simp)+

lemma double_minus_one: "double (- 1) = - 1"
  by code_simp

lemma double_values:
  "double 0.9 = 8106479329266893 / 2 ^ 53"
  "double 0.85 = 7656119366529843 / 2 ^ 53"
  "double 0.83 = 7475975381435023 / 2 ^ 53"
  "double 0.82 = 7385903388887613 / 2 ^ 53"
  "double 0.5 = 1 / 2"
  "double 0.4 = 3602879701896397 / 2 ^ 53"
  "double 0.08 = 5764607523034235 / 2 ^ 56"
  "double 0.05 = 3602879701896397 / 2 ^ 56"
  by code_simp+

text \<open>The same facts with the decimal numbers as fractions in lowest terms.\<close>

lemma double_fractions:
  "double (9 / 10) = 8106479329266893 / 2 ^ 53"
  "double (17 / 20) = 7656119366529843 / 2 ^ 53"
  "double (83 / 100) = 7475975381435023 / 2 ^ 53"
  "double (41 / 50) = 7385903388887613 / 2 ^ 53"
  "double (1 / 2) = 1 / 2"
  "double (2 / 5) = 3602879701896397 / 2 ^ 53"
  "double (2 / 25) = 5764607523034235 / 2 ^ 56"
  "double (1 / 20) = 3602879701896397 / 2 ^ 56"
  by code_simp+


lemma example_differences:
  "double (double 0.9 - double 0.85) \<le> double 0.08"
  "double (double 0.9 - double 0.83) \<le> double 0.08"
  "\<not> double (double 0.9 - double 0.82) \<le> double 0.08"
  "\<not> double (double 0.9 - double 0.5) \<le> double 0.08"
  "\<not> double (double 0.9 - double 0.4) \<le> double 0.08"
  by code_simp+

section \<open>The evidence filter\<close>

subsection \<open>Python's descending sort is the stable sort by the negated key\<close>










lemma sort_key_not_Nil: "xs \<noteq> [] \<Longrightarrow> sort_key f xs \<noteq> []"
  by (metis length_0_conv length_sort)

lemma kept_not_Nil:
  assumes "ys \<noteq> []" "P (hd ys)" "0 < m"
  shows "take m (filter P ys) \<noteq> []"
proof -
  from assms(1) obtain y zs where ys: "ys = y # zs" by (cases ys) auto
  with assms show ?thesis by (cases m) simp_all
qed







lemma context_parts_length: "context_parts rs = Inr ps \<Longrightarrow> length ps = length rs"
  by (induction rs arbitrary: ps) (auto split: option.splits sum.splits)

lemma context_parts_ends:
  "context_parts rs = Inr ps \<Longrightarrow> p \<in> set ps \<Longrightarrow> \<exists>front. p = front @ ''\<newline>\<newline>''"
  by (induction rs arbitrary: ps) (auto split: option.splits sum.splits)

lemma join_last:
  "ps \<noteq> [] \<Longrightarrow> last ps \<noteq> [] \<Longrightarrow> join sep ps \<noteq> [] \<and> last (join sep ps) = last (last ps)"
  by (induction sep ps rule: join.induct) auto

lemma sorted_reverse_not_Nil: "xs \<noteq> [] \<Longrightarrow> sorted_reverse f xs \<noteq> []"
  by (simp add: sorted_reverse_def sort_key_not_Nil)

lemma filtered_results_not_Nil:
  assumes "ys \<noteq> []" "0 \<le> d" "0 < m"
  shows "filtered_results (get_score (hd ys)) d m ys \<noteq> []"
proof -
  from assms(3) have m: "nat m > 0" by simp
  have "double (get_score (hd ys) - get_score (hd ys)) \<le> double d"
    using double_nonneg[OF assms(2)] by simp
  from kept_not_Nil[OF assms(1), of "\<lambda>r. double (get_score (hd ys) - get_score r) \<le> double d", OF this m]
    assms(3)
  show ?thesis by (simp add: filtered_results_def take_upto_def)
qed

lemma format_context_kept:
  assumes "results resp = Some rs" "rs \<noteq> []"
  shows "format_context_from_tavily resp 0.08 4 =
      (case context_parts (filtered_results (get_score (hd (sorted_reverse get_score rs))) 0.08 4
             (sorted_reverse get_score rs)) of
         Inl e \<Rightarrow> Inl e | Inr parts \<Rightarrow> Inr (join ''\<newline>\<newline>'' parts))"
proof -
  define ys where "ys = sorted_reverse get_score rs"
  have ne: "ys \<noteq> []" using assms(2) by (simp add: ys_def sorted_reverse_not_Nil)
  then obtain b bs where ys: "ys = b # bs" by (cases ys) auto
  have kne: "filtered_results (get_score (hd ys)) 0.08 4 ys \<noteq> []"
    by (rule filtered_results_not_Nil[OF ne]) simp_all
  show ?thesis
    using assms kne
    by (simp add: format_context_from_tavily_def Let_def ys_def[symmetric] ys)
qed

lemma context_parts_join_ne:
  assumes "context_parts kept = Inr ps" "kept \<noteq> []"
  shows "join ''\<newline>\<newline>'' ps \<noteq> ''No high-confidence sources available.''"
proof -
  have pne: "ps \<noteq> []" using context_parts_length[OF assms(1)] assms(2) by auto
  then have "last ps \<in> set ps" by simp
  from context_parts_ends[OF assms(1) this] obtain front where fr: "last ps = front @ ''\<newline>\<newline>''"
    by blast
  then have "last ps \<noteq> []" by simp
  from join_last[OF pne this, of "''\<newline>\<newline>''"] fr
  have "last (join ''\<newline>\<newline>'' ps) = CHR ''\<newline>''" by simp
  moreover have "last ''No high-confidence sources available.'' = CHR ''.''" by simp
  ultimately show ?thesis by auto
qed

lemma context_parts_isl:
  "isl (context_parts rs) \<longleftrightarrow> (\<exists>r \<in> set rs. title r = None \<or> content r = None)"
  by (induction rs) (auto split: option.splits sum.splits)

lemma format_context_no_results: "format_context_from_tavily \<lparr>results = None\<rparr> d m = Inr ''No relevant information found.''"
  by (simp add: format_context_from_tavily_def)


text \<open>
  C9: when the response holds a non-empty list of results, the list kept by the score test
  and the slice is not empty (the best result passes the test, since its difference to
  the top score is 0), and the filter does not return "No high-confidence sources
  available.": it returns the formatted block or raises the key error of C10.
\<close>

theorem kept_results_not_empty:
  assumes "results resp = Some rs" "rs \<noteq> []"
  shows "filtered_results (get_score (hd (sorted_reverse get_score rs))) 0.08 4
           (sorted_reverse get_score rs) \<noteq> [] \<and>
         format_context_from_tavily resp 0.08 4 \<noteq> Inr ''No high-confidence sources available.''"
proof -
  define kept where "kept = filtered_results (get_score (hd (sorted_reverse get_score rs))) 0.08 4
           (sorted_reverse get_score rs)"
  have kne: "kept \<noteq> []" unfolding kept_def
    by (rule filtered_results_not_Nil[OF sorted_reverse_not_Nil[OF assms(2)]]) simp_all
  have out: "format_context_from_tavily resp 0.08 4 =
      (case context_parts kept of Inl e \<Rightarrow> Inl e | Inr parts \<Rightarrow> Inr (join ''\<newline>\<newline>'' parts))"
    unfolding kept_def by (rule format_context_kept[OF assms])
  have "format_context_from_tavily resp 0.08 4 \<noteq> Inr ''No high-confidence sources available.''"
  proof (cases "context_parts kept")
    case (Inl e)
    with out show ?thesis by simp
  next
    case (Inr ps)
    from context_parts_join_ne[OF Inr kne] out Inr show ?thesis by simp
  qed
  with kne show ?thesis by (simp add: kept_def)
qed

text \<open>
  One result with all three keys: the filter formats it.
\<close>

theorem kept_results_not_empty_witness:
  "results \<lparr>results = Some [\<lparr>title = Some ''T'', content = Some ''c'', score = Some 0.3\<rparr>]\<rparr>
      = Some [\<lparr>title = Some ''T'', content = Some ''c'', score = Some 0.3\<rparr>] \<and>
   [\<lparr>title = Some ''T'', content = Some ''c'', score = Some 0.3\<rparr>] \<noteq> [] \<and>
   format_context_from_tavily
     \<lparr>results = Some [\<lparr>title = Some ''T'', content = Some ''c'', score = Some 0.3\<rparr>]\<rparr> 0.08 4
      \<noteq> Inr ''No high-confidence sources available.''"
  using kept_results_not_empty[of
      "\<lparr>results = Some [\<lparr>title = Some ''T'', content = Some ''c'', score = Some 0.3\<rparr>]\<rparr>"
      "[\<lparr>title = Some ''T'', content = Some ''c'', score = Some 0.3\<rparr>]"]
  by simp

text \<open>With the bound 0, or with a negative tolerance, nothing is kept.\<close>

lemma no_kept_results_with_other_parameters:
  "format_context_from_tavily
      \<lparr>results = Some [\<lparr>title = Some ''t'', content = Some ''c'', score = Some 0.9\<rparr>]\<rparr> 0.08 0
     = Inr ''No high-confidence sources available.''"
  "format_context_from_tavily
      \<lparr>results = Some [\<lparr>title = Some ''t'', content = Some ''c'', score = Some 0.9\<rparr>]\<rparr> (- 1) 4
     = Inr ''No high-confidence sources available.''"
  by (simp_all add: format_context_from_tavily_def sorted_reverse_def filtered_results_def
      take_upto_def get_score_def double_bound_nonneg double_minus_one)

lemma missing_title_raises: "format_context_from_tavily
      \<lparr>results = Some [\<lparr>title = None, content = Some ''c'', score = Some 0.9\<rparr>]\<rparr> 0.08 4
     = Inl (KeyError ''title'')"
  by (simp add: format_context_from_tavily_def sorted_reverse_def filtered_results_def
      take_upto_def get_score_def double_bound_nonneg)

lemma missing_content_raises: "format_context_from_tavily
      \<lparr>results = Some [\<lparr>title = Some ''t'', content = None, score = Some 0.9\<rparr>]\<rparr> 0.08 4
     = Inl (KeyError ''content'')"
  by (simp add: format_context_from_tavily_def sorted_reverse_def filtered_results_def
      take_upto_def get_score_def double_bound_nonneg)

lemma missing_score_formats: "format_context_from_tavily
      \<lparr>results = Some [\<lparr>title = Some ''t'', content = Some ''c'', score = None\<rparr>]\<rparr> 0.08 4
     = Inr ''t:\<newline>c\<newline>\<newline>''"
  by (simp add: format_context_from_tavily_def sorted_reverse_def filtered_results_def
      take_upto_def get_score_def double_bound_nonneg)

lemma missing_score_ranks_as_zero: "sorted_reverse get_score
      [\<lparr>title = Some ''t'', content = Some ''c'', score = None\<rparr>,
       \<lparr>title = Some ''u'', content = Some ''d'', score = Some 0.05\<rparr>] =
      [\<lparr>title = Some ''u'', content = Some ''d'', score = Some 0.05\<rparr>,
       \<lparr>title = Some ''t'', content = Some ''c'', score = None\<rparr>]"
  by (simp add: sorted_reverse_def get_score_def double_fractions)

lemma format_context_raises_iff:
  "isl (format_context_from_tavily \<lparr>results = Some rs\<rparr> 0.08 4) \<longleftrightarrow>
     (\<exists>r \<in> set (filtered_results (get_score (hd (sorted_reverse get_score rs))) 0.08 4
                   (sorted_reverse get_score rs)).
        title r = None \<or> content r = None)"
proof (cases "rs = []")
  case True
  then show ?thesis
    by (simp add: format_context_from_tavily_def sorted_reverse_def filtered_results_def take_upto_def)
next
  case False
  have "results \<lparr>results = Some rs\<rparr> = Some rs" by simp
  from format_context_kept[OF this False] show ?thesis
    by (simp add: context_parts_isl[symmetric] split: sum.splits)
qed

text \<open>
  C10: the filter is partial on dictionaries. A result without the key \<open>score\<close> is
  accepted, its score read as 0 (it is formatted when alone, and ranked after a result
  scoring 0.05). A kept result without the key \<open>title\<close> or \<open>content\<close> makes the filter
  raise \<open>KeyError\<close>: it does so exactly when some kept result lacks one of the two keys,
  as on the two one-element inputs below.
\<close>

theorem format_context_key_errors:
  "get_score (r\<lparr>score := None\<rparr>) = 0 \<and>
   format_context_from_tavily
      \<lparr>results = Some [\<lparr>title = Some ''t'', content = Some ''c'', score = None\<rparr>]\<rparr> 0.08 4
     = Inr ''t:\<newline>c\<newline>\<newline>'' \<and>
   sorted_reverse get_score
      [\<lparr>title = Some ''t'', content = Some ''c'', score = None\<rparr>,
       \<lparr>title = Some ''u'', content = Some ''d'', score = Some 0.05\<rparr>] =
      [\<lparr>title = Some ''u'', content = Some ''d'', score = Some 0.05\<rparr>,
       \<lparr>title = Some ''t'', content = Some ''c'', score = None\<rparr>] \<and>
   format_context_from_tavily
      \<lparr>results = Some [\<lparr>title = None, content = Some ''c'', score = Some 0.9\<rparr>]\<rparr> 0.08 4
     = Inl (KeyError ''title'') \<and>
   format_context_from_tavily
      \<lparr>results = Some [\<lparr>title = Some ''t'', content = None, score = Some 0.9\<rparr>]\<rparr> 0.08 4
     = Inl (KeyError ''content'') \<and>
   (isl (format_context_from_tavily \<lparr>results = Some rs\<rparr> 0.08 4) \<longleftrightarrow>
     (\<exists>r \<in> set (filtered_results (get_score (hd (sorted_reverse get_score rs))) 0.08 4
                   (sorted_reverse get_score rs)).
        title r = None \<or> content r = None))"
proof -
  have "get_score (r\<lparr>score := None\<rparr>) = 0" by (simp add: get_score_def)
  with missing_score_formats missing_score_ranks_as_zero missing_title_raises
    missing_content_raises format_context_raises_iff[of rs]
  show ?thesis by blast
qed

section \<open>The retry policy\<close>

lemma retrying_length:
  "length (snd (retrying reraise stop wait retry_on fn n)) \<le> stop - n"
proof (induction reraise stop wait retry_on fn n rule: retrying.induct)
  case (1 reraise stop wait retry_on fn n)
  show ?case
  proof (cases "fn n")
    case (Inr v)
    then show ?thesis by (subst retrying.simps) simp
  next
    case (Inl e)
    show ?thesis
    proof (cases "retry_on e \<and> \<not> stop \<le> n")
      case True
      with 1[OF Inl] Inl show ?thesis
        by (subst retrying.simps) (auto split: prod.splits)
    next
      case False
      with Inl show ?thesis by (subst retrying.simps) auto
    qed
  qed
qed

lemma retrying_sleeps:
  "snd (retrying reraise stop wait retry_on fn n) =
     map wait [n ..< n + length (snd (retrying reraise stop wait retry_on fn n))]"
proof (induction reraise stop wait retry_on fn n rule: retrying.induct)
  case (1 reraise stop wait retry_on fn n)
  show ?case
  proof (cases "fn n")
    case (Inr v)
    then show ?thesis by (subst (1 2) retrying.simps) simp
  next
    case (Inl e)
    show ?thesis
    proof (cases "retry_on e \<and> \<not> stop \<le> n")
      case True
      with 1[OF Inl] Inl show ?thesis
        by (subst (1 2) retrying.simps) (auto split: prod.splits simp: upt_conv_Cons)
    next
      case False
      with Inl show ?thesis by (subst (1 2) retrying.simps) auto
    qed
  qed
qed

lemma retrying_outcome:
  "fst (retrying True stop wait retry_on fn n) =
     fn (n + length (snd (retrying True stop wait retry_on fn n)))"
proof (induction True stop wait retry_on fn n rule: retrying.induct)
  case (1 stop wait retry_on fn n)
  show ?case
  proof (cases "fn n")
    case (Inr v)
    then show ?thesis by (subst (1 2) retrying.simps) simp
  next
    case (Inl e)
    show ?thesis
    proof (cases "retry_on e \<and> \<not> stop \<le> n")
      case True
      with 1[OF Inl] Inl show ?thesis
        by (subst (1 2) retrying.simps) (auto split: prod.splits)
    next
      case False
      with Inl show ?thesis by (subst (1 2) retrying.simps) auto
    qed
  qed
qed


lemma retrying_retried:
  "list_all (\<lambda>k. case fn k of Inl e \<Rightarrow> retry_on e | Inr v \<Rightarrow> False)
     [n ..< n + length (snd (retrying reraise stop wait retry_on fn n))]"
proof (induction reraise stop wait retry_on fn n rule: retrying.induct)
  case (1 reraise stop wait retry_on fn n)
  show ?case
  proof (cases "fn n")
    case (Inr v)
    then show ?thesis by (subst retrying.simps) simp
  next
    case (Inl e)
    show ?thesis
    proof (cases "retry_on e \<and> \<not> stop \<le> n")
      case True
      with 1[OF Inl] Inl show ?thesis
        by (subst retrying.simps) (auto split: prod.splits simp: upt_conv_Cons)
    next
      case False
      with Inl show ?thesis by (subst retrying.simps) auto
    qed
  qed
qed

lemma retrying_stops:
  "stop \<le> n + length (snd (retrying reraise stop wait retry_on fn n)) \<or>
   (case fn (n + length (snd (retrying reraise stop wait retry_on fn n))) of
      Inl e \<Rightarrow> \<not> retry_on e | Inr v \<Rightarrow> True)"
proof (induction reraise stop wait retry_on fn n rule: retrying.induct)
  case (1 reraise stop wait retry_on fn n)
  show ?case
  proof (cases "fn n")
    case (Inr v)
    then show ?thesis by (subst (1 2) retrying.simps) simp
  next
    case (Inl e)
    show ?thesis
    proof (cases "retry_on e \<and> \<not> stop \<le> n")
      case True
      with 1[OF Inl] Inl show ?thesis
        by (subst (1 2) retrying.simps) (auto split: prod.splits)
    next
      case False
      with Inl show ?thesis by (subst (1 2) retrying.simps) auto
    qed
  qed
qed

lemma wait_exponential_bounds:
  "2 \<le> wait_exponential m 2 10 n \<and> wait_exponential m 2 10 n \<le> 10"
  by (simp add: wait_exponential_def)

lemma wait_exponential_first: "wait_exponential 1 2 10 1 = 2" "wait_exponential 1 2 10 2 = 2"
  by (simp_all add: wait_exponential_def)

lemma attempts_retry_async: "attempts (retry_async fn) \<le> 3"
  using retrying_length[of True 3 "wait_exponential 1 2 10" retry_if_TavilySearchError fn 1]
  by (simp add: attempts_def retry_async_def)

lemma sleeps_retry_async:
  "snd (retry_async fn) = map (wait_exponential 1 2 10) [1 ..< attempts (retry_async fn)]"
  using retrying_sleeps[of True 3 "wait_exponential 1 2 10" retry_if_TavilySearchError fn 1]
  by (simp add: attempts_def retry_async_def)

lemma outcome_retry_async: "fst (retry_async fn) = fn (attempts (retry_async fn))"
  using retrying_outcome[of 3 "wait_exponential 1 2 10" retry_if_TavilySearchError fn 1]
  by (simp add: attempts_def retry_async_def)

lemma retried_retry_async:
  "list_all (\<lambda>k. raised_TavilySearchError (fn k)) [1 ..< attempts (retry_async fn)]"
  using retrying_retried[where fn = fn and retry_on = retry_if_TavilySearchError and n = 1
      and reraise = True and stop = 3 and wait = "wait_exponential 1 2 10"]
  by (simp add: attempts_def retry_async_def raised_TavilySearchError_def[abs_def])

lemma stops_retry_async:
  "attempts (retry_async fn) = 3 \<or> \<not> raised_TavilySearchError (fn (attempts (retry_async fn)))"
  using retrying_stops[where fn = fn and retry_on = retry_if_TavilySearchError and n = 1
      and reraise = True and stop = 3 and wait = "wait_exponential 1 2 10"]
    attempts_retry_async[of fn]
  by (auto simp add: attempts_def retry_async_def raised_TavilySearchError_def split: sum.splits)

lemma sleeps_in_range: "set (snd (retry_async fn)) \<subseteq> {2..10}"
  by (subst sleeps_retry_async) (auto simp: wait_exponential_bounds)

lemma sleeps_cases: "snd (retry_async fn) \<in> {[], [2], [2, 2]}"
proof -
  have "attempts (retry_async fn) \<le> 3" "1 \<le> attempts (retry_async fn)"
    using attempts_retry_async[of fn] by (simp_all add: attempts_def)
  then consider "attempts (retry_async fn) = 1" | "attempts (retry_async fn) = 2"
    | "attempts (retry_async fn) = 3"
    by linarith
  then show ?thesis
  proof cases
    case 1
    then show ?thesis by (subst sleeps_retry_async) simp
  next
    case 2
    then show ?thesis
      by (subst sleeps_retry_async) (simp add: wait_exponential_def upt_conv_Cons)
  next
    case 3
    then show ?thesis
      by (subst sleeps_retry_async) (simp add: wait_exponential_def upt_conv_Cons)
  qed
qed

lemma retrying_all_fail:
  assumes "\<And>n. fn n = Inl (TavilySearchError m)"
  shows "retry_async fn = (Inl (TavilySearchError m), [2, 2])"
proof -
  have three: "retrying True 3 (wait_exponential 1 2 10) retry_if_TavilySearchError fn 3
      = (Inl (TavilySearchError m), [])"
    by (subst retrying.simps) (simp add: assms)
  have two: "retrying True 3 (wait_exponential 1 2 10) retry_if_TavilySearchError fn 2
      = (Inl (TavilySearchError m), [2])"
    using three by (subst retrying.simps) (simp add: assms wait_exponential_def eval_nat_numeral)
  have "retrying True 3 (wait_exponential 1 2 10) retry_if_TavilySearchError fn 1
      = (Inl (TavilySearchError m), [2, 2])"
    using two by (subst retrying.simps) (simp add: assms wait_exponential_def eval_nat_numeral)
  then show ?thesis by (simp add: retry_async_def)
qed

lemma exhaustion_without_reraise:
  assumes "\<And>n. fn n = Inl (TavilySearchError m)"
  shows "fst (retrying False 1 w retry_if_TavilySearchError fn 1) = Inl (RetryError (TavilySearchError m))"
  by (subst retrying.simps) (simp add: assms)

lemma retrying_returns:
  "fn n = Inr v \<Longrightarrow> retrying reraise stop w retry_on fn n = (Inr v, [])"
  by (subst retrying.simps) simp

lemma retrying_raises:
  "fn n = Inl e \<Longrightarrow> \<not> retry_on e \<Longrightarrow> retrying reraise stop w retry_on fn n = (Inl e, [])"
  by (subst retrying.simps) simp

lemma retrying_again:
  "fn n = Inl e \<Longrightarrow> retry_on e \<Longrightarrow> n < stop \<Longrightarrow>
   retrying reraise stop w retry_on fn n =
     (fst (retrying reraise stop w retry_on fn (Suc n)),
      w n # snd (retrying reraise stop w retry_on fn (Suc n)))"
  by (subst retrying.simps) (simp split: prod.splits)

lemma flaky_search:
  "tavily_search flaky_env ''capital of France'' ''basic'' = (Inr ''No relevant information found.'', [2])"
proof -
  let ?fn = "\<lambda>n. tavily_search_body (TAVILY_API_KEY flaky_env) (client_search flaky_env n)
      ''capital of France'' ''basic''"
  let ?w = "wait_exponential 1 2 10"
  have a1: "?fn 1 = Inl (TavilySearchError ''[Tavily SDK Error] timed out'')"
    by (simp add: tavily_search_body_def flaky_env_def stub_env_def sdk_error_def)
  have a2: "?fn (Suc 1) = Inr ''No relevant information found.''"
    by (simp add: tavily_search_body_def flaky_env_def stub_env_def format_context_from_tavily_def)
  have two: "retrying True 3 ?w retry_if_TavilySearchError ?fn (Suc 1)
      = (Inr ''No relevant information found.'', [])"
    by (rule retrying_returns[where fn = ?fn and n = "Suc 1"]) (rule a2)
  have "retrying True 3 ?w retry_if_TavilySearchError ?fn 1 =
      (fst (retrying True 3 ?w retry_if_TavilySearchError ?fn (Suc 1)),
       ?w 1 # snd (retrying True 3 ?w retry_if_TavilySearchError ?fn (Suc 1)))"
    by (rule retrying_again[where fn = ?fn and n = 1
          and e = "TavilySearchError ''[Tavily SDK Error] timed out''", OF a1]) simp_all
  also have "\<dots> = (Inr ''No relevant information found.'', [?w 1])"
    by (simp only: two fst_conv snd_conv)
  also have "?w 1 = 2" by (simp add: wait_exponential_def)
  finally show ?thesis by (simp only: tavily_search_def retry_async_def)
qed

lemma cancelled_search:
  "tavily_search cancelled_env ''capital of France'' ''basic'' = (Inl (BaseException ''CancelledError''), [])"
  unfolding tavily_search_def retry_async_def
  by (subst retrying.simps)
     (simp add: tavily_search_body_def cancelled_env_def stub_env_def sdk_error_def)

text \<open>
  C5: a call of \<open>tavily_search\<close> makes at most 3 attempts. Between attempts it sleeps for
  \<open>wait_exponential\<close> with multiplier 1, minimum 2 and maximum 10: every sleep lies
  between 2 and 10, the first is 2, and with 3 attempts the sleeps are 2 and 2. Every
  attempt but the last raised \<open>TavilySearchError\<close>, the only exception that is retried;
  the call stops at the first attempt that returns or raises something else, or at the
  third. Its outcome is the outcome of its last attempt, unchanged: after 3 failures the
  third error itself is raised.
\<close>

theorem tavily_search_retry_policy:
  "attempts (tavily_search E q d) \<le> 3 \<and>
   snd (tavily_search E q d) = map (wait_exponential 1 2 10) [1 ..< attempts (tavily_search E q d)] \<and>
   set (snd (tavily_search E q d)) \<subseteq> {2..10} \<and>
   snd (tavily_search E q d) \<in> {[], [2], [2, 2]} \<and>
   list_all
     (\<lambda>k. raised_TavilySearchError (tavily_search_body (TAVILY_API_KEY E) (client_search E k) q d))
     [1 ..< attempts (tavily_search E q d)] \<and>
   (attempts (tavily_search E q d) = 3 \<or>
    \<not> raised_TavilySearchError
        (tavily_search_body (TAVILY_API_KEY E)
           (client_search E (attempts (tavily_search E q d))) q d)) \<and>
   fst (tavily_search E q d) =
     tavily_search_body (TAVILY_API_KEY E) (client_search E (attempts (tavily_search E q d))) q d"
proof -
  let ?fn = "\<lambda>n. tavily_search_body (TAVILY_API_KEY E) (client_search E n) q d"
  have ts: "tavily_search E q d = retry_async ?fn" by (simp add: tavily_search_def)
  show ?thesis
    unfolding ts
    using attempts_retry_async[of ?fn] sleeps_retry_async[of ?fn] sleeps_in_range[of ?fn]
      sleeps_cases[of ?fn] retried_retry_async[of ?fn] stops_retry_async[of ?fn]
      outcome_retry_async[of ?fn]
    by blast
qed

lemma validation_error_body:
  assumes "400 < length q \<or> api_key = None \<or> api_key = Some []"
  shows "tavily_search_body api_key search q d =
     Inl (TavilySearchError
       (if 400 < length q then ''Query is too long. Max query length is 400 characters.''
        else ''Tavily API key not found.''))"
  using assms by (auto simp: tavily_search_body_def)

text \<open>
  C2, as the code has it: for a sub-query of more than 400 characters, and when the
  credential is unset or empty, every attempt raises \<open>TavilySearchError\<close> with the
  validation message before the provider is called. This is the exception the policy
  retries: the call makes 3 attempts, sleeps 2 and 2 time units, and then raises that
  error, with its message unchanged. The provider has no part in the result.
\<close>

theorem validation_errors_are_retried:
  assumes "400 < length q \<or> TAVILY_API_KEY E = None \<or> TAVILY_API_KEY E = Some []"
  shows "tavily_search E q d =
     (Inl (TavilySearchError
        (if 400 < length q then ''Query is too long. Max query length is 400 characters.''
         else ''Tavily API key not found.'')), [2, 2]) \<and>
     attempts (tavily_search E q d) = 3 \<and>
     tavily_search (E\<lparr>client_search := other\<rparr>) q d = tavily_search E q d"
proof -
  have r: "tavily_search E' q d =
     (Inl (TavilySearchError
        (if 400 < length q then ''Query is too long. Max query length is 400 characters.''
         else ''Tavily API key not found.'')), [2, 2])"
    if "TAVILY_API_KEY E' = TAVILY_API_KEY E" for E'
    unfolding tavily_search_def
    by (rule retrying_all_fail) (use assms that in \<open>simp add: validation_error_body\<close>)
  have "tavily_search E q d = tavily_search (E\<lparr>client_search := other\<rparr>) q d"
    using r[of E] r[of "E\<lparr>client_search := other\<rparr>"] by simp
  with r[of E] show ?thesis by (simp add: attempts_def)
qed

text \<open>
  The same without the credential, on a short sub-query.
\<close>

theorem validation_errors_are_retried_witness:
  "TAVILY_API_KEY (stub_env\<lparr>TAVILY_API_KEY := None\<rparr>) = None \<and>
   tavily_search (stub_env\<lparr>TAVILY_API_KEY := None\<rparr>) ''capital of France'' ''basic'' =
     (Inl (TavilySearchError ''Tavily API key not found.''), [2, 2]) \<and>
   attempts (tavily_search (stub_env\<lparr>TAVILY_API_KEY := None\<rparr>) ''capital of France'' ''basic'') = 3"
  using validation_errors_are_retried[of "''capital of France''"
      "stub_env\<lparr>TAVILY_API_KEY := None\<rparr>" "''basic''"]
  by (simp add: attempts_def)

text \<open>
  A sub-query of 401 characters on the stub environment: the call does not stop at its
  first attempt. It makes 3 attempts, sleeps 2 and 2 time units between them, and raises
  the validation error.
\<close>

theorem oversized_query_is_retried:
  "length (replicate 401 (CHR ''a'')) = 401 \<and>
   tavily_search stub_env (replicate 401 (CHR ''a'')) ''basic'' =
     (Inl (TavilySearchError ''Query is too long. Max query length is 400 characters.''), [2, 2]) \<and>
   attempts (tavily_search stub_env (replicate 401 (CHR ''a'')) ''basic'') = 3"
proof -
  have "tavily_search stub_env (replicate 401 (CHR ''a'')) ''basic'' =
     (Inl (TavilySearchError ''Query is too long. Max query length is 400 characters.''), [2, 2])"
    unfolding tavily_search_def
    by (rule retrying_all_fail) (simp add: tavily_search_body_def)
  then show ?thesis by (simp add: attempts_def)
qed

section \<open>Query decomposition\<close>

lemma cleaned_response_fenced:
  "cleaned_response ([CHR 0x60, CHR 0x60, CHR 0x60] @ ''json\<newline>[1, 2]\<newline>'' @ [CHR 0x60, CHR 0x60, CHR 0x60] @ ''  '')
     = ''[1, 2]\<newline>''"
  by (simp add: cleaned_response_def py_strip_def is_space_def after_fence_def rstrip_backticks_def)

lemma cleaned_response_plain: "cleaned_response ''[]'' = ''[]''"
  by (simp add: cleaned_response_def py_strip_def is_space_def rstrip_backticks_def)

lemma generate_subqueries_Inr:
  assumes "cohere E (subquery_prompt q m) = Inr raw"
  shows "generate_subqueries E q m =
     Inr (case parsed_strings E raw of None \<Rightarrow> [q] | Some ps \<Rightarrow> take_upto m ps)"
  using assms by (simp add: generate_subqueries_def parsed_strings_def split: option.splits)

lemma generate_subqueries_Inl:
  assumes "cohere E (subquery_prompt q m) = Inl e"
  shows "generate_subqueries E q m = (if is_Exception e then Inr [q] else Inl e)"
  using assms by (simp add: generate_subqueries_def)

text \<open>
  C4, as the code has it: unless the provider's call is interrupted by an exception that
  is not an \<open>Exception\<close>, \<open>generate_subqueries\<close> with the default bound 15 returns a list
  of at most 15 strings. The list is the original query alone whenever the provider raised
  or its output does not parse as a JSON list of strings (after stripping code fences);
  otherwise it is the first 15 of the parsed strings. It is empty exactly when the output
  parses as the empty list.
\<close>

theorem generate_subqueries_result:
  assumes "case cohere E (subquery_prompt q 15) of Inl e \<Rightarrow> is_Exception e | Inr raw \<Rightarrow> True"
  shows "\<exists>qs. generate_subqueries E q 15 = Inr qs \<and> length qs \<le> 15 \<and>
           (qs = [] \<longleftrightarrow>
              (\<exists>raw. cohere E (subquery_prompt q 15) = Inr raw \<and> parsed_strings E raw = Some [])) \<and>
           ((case cohere E (subquery_prompt q 15) of
               Inl e \<Rightarrow> True | Inr raw \<Rightarrow> parsed_strings E raw = None) \<longrightarrow> qs = [q]) \<and>
           (\<forall>raw ps. cohere E (subquery_prompt q 15) = Inr raw \<longrightarrow> parsed_strings E raw = Some ps
               \<longrightarrow> qs = take 15 ps)"
proof (cases "cohere E (subquery_prompt q 15)")
  case (Inl e)
  with assms have "is_Exception e" by simp
  with Inl show ?thesis by (simp add: generate_subqueries_Inl)
next
  case (Inr raw)
  show ?thesis
  proof (cases "parsed_strings E raw")
    case None
    with Inr show ?thesis by (simp add: generate_subqueries_Inr)
  next
    case (Some ps)
    with Inr show ?thesis by (simp add: generate_subqueries_Inr take_upto_def)
  qed
qed

text \<open>
  On the stub environment the output "inaccurate" is no JSON, and the query is returned alone.
\<close>

theorem generate_subqueries_result_witness:
  "cohere stub_env (subquery_prompt ''What is LangGraph?'' 15) = Inr ''inaccurate'' \<and>
   parsed_strings stub_env ''inaccurate'' = None \<and>
   generate_subqueries stub_env ''What is LangGraph?'' 15 = Inr [''What is LangGraph?'']"
  using generate_subqueries_result[of stub_env "''What is LangGraph?''"]
  by (simp add: stub_env_def parsed_strings_def)

text \<open>
  When the provider answers with the empty JSON list, the list of sub-queries is empty.
\<close>

theorem empty_list_output_gives_no_subqueries:
  "generate_subqueries empty_list_env ''What is LangGraph?'' 15 = Inr []"
  by (simp add: generate_subqueries_def empty_list_env_def stub_env_def cleaned_response_plain
      take_upto_def)

section \<open>Compiling the graph\<close>

lemma nodes_build_graph:
  "nodes build_graph =
     [(''parse'', query_parser_node), (''search_context'', search_and_context_node),
      (''llm'', llm_node), (''critique_and_revise'', critique_and_revise_node),
      (''publish'', publish_node)]"
  by (simp add: build_graph_def new_graph_def add_node_def add_edge_def add_conditional_edges_def)

lemma edges_build_graph:
  "edges build_graph =
     [(START, ''parse''), (''parse'', ''search_context''), (''search_context'', ''llm''),
      (''llm'', ''critique_and_revise''), (''critique_and_revise'', ''publish''),
      (''publish'', END)]"
  by (simp add: build_graph_def new_graph_def add_node_def add_edge_def add_conditional_edges_def)

lemma branches_build_graph:
  "branches build_graph =
     [(''critique_and_revise'', critique_condition,
       [(''search_context'', ''search_context''), (''publish'', ''publish'')])]"
  by (simp add: build_graph_def new_graph_def add_node_def add_edge_def add_conditional_edges_def)

lemma has_both_edges_build_graph: "has_both_edges build_graph ''critique_and_revise''"
  by (simp add: has_both_edges_def edges_build_graph branches_build_graph)

lemma compile_build_graph: "compile_graph build_graph = Inr build_graph"
  by (simp add: compile_graph_def edge_sources_def edge_targets_def nodes_build_graph
      edges_build_graph branches_build_graph START_def END_def)

lemma compile_graph_iff:
  "compile_graph g = Inr g' \<longleftrightarrow>
     g' = g \<and>
     set (edge_sources g) \<subseteq> set (map fst (nodes g)) \<union> {START} \<and>
     START \<in> set (edge_sources g) \<and>
     set (edge_targets g) \<subseteq> set (map fst (nodes g)) \<union> {END}"
proof -
  have s: "find (\<lambda>s. s \<notin> set (map fst (nodes g)) \<and> s \<noteq> START) (edge_sources g) = None
      \<longleftrightarrow> set (edge_sources g) \<subseteq> set (map fst (nodes g)) \<union> {START}"
    by (auto simp: find_None_iff)
  have t: "find (\<lambda>t. t \<notin> set (map fst (nodes g)) \<and> t \<noteq> END) (edge_targets g) = None
      \<longleftrightarrow> set (edge_targets g) \<subseteq> set (map fst (nodes g)) \<union> {END}"
    by (auto simp: find_None_iff)
  show ?thesis
    unfolding compile_graph_def Let_def s[symmetric] t[symmetric]
    by (auto split: option.splits)
qed

lemma add_conditional_edges_parts:
  "nodes (add_conditional_edges source path path_map g) = nodes g"
  "edges (add_conditional_edges source path path_map g) = edges g"
  "edge_sources (add_conditional_edges source path path_map g) = edge_sources g @ [source]"
  "edge_targets (add_conditional_edges source path path_map g) = edge_targets g @ map snd path_map"
  by (simp_all add: add_conditional_edges_def edge_sources_def edge_targets_def)

text \<open>
  C7, as the code has it: a node with an unconditional edge may be given a conditional
  edge as well, and \<open>compile\<close> accepts the result as it accepted the graph before; a
  node with both kinds of edges is no ground for rejection. This is how the repository
  builds its own graph: \<open>critique_and_revise\<close> has the unconditional edge to \<open>publish\<close>
  and the conditional edge to \<open>search_context\<close> or \<open>publish\<close>.
\<close>

theorem compile_accepts_both_edges:
  assumes "compile_graph g = Inr g"
    and "(source, target) \<in> set (edges g)"
    and "source \<in> set (map fst (nodes g))"
    and "set (map snd path_map) \<subseteq> set (map fst (nodes g)) \<union> {END}"
  shows "has_both_edges (add_conditional_edges source path path_map g) source \<and>
         compile_graph (add_conditional_edges source path path_map g) =
           Inr (add_conditional_edges source path path_map g)"
proof -
  from assms(2) have "source \<in> set (map fst (edges g))" by force
  then have both: "has_both_edges (add_conditional_edges source path path_map g) source"
    by (simp add: has_both_edges_def add_conditional_edges_def)
  from assms(1) have ok:
    "set (edge_sources g) \<subseteq> set (map fst (nodes g)) \<union> {START}"
    "START \<in> set (edge_sources g)"
    "set (edge_targets g) \<subseteq> set (map fst (nodes g)) \<union> {END}"
    by (simp_all only: compile_graph_iff)
  have "compile_graph (add_conditional_edges source path path_map g) =
           Inr (add_conditional_edges source path path_map g)"
    unfolding compile_graph_iff add_conditional_edges_parts
    using ok assms(3,4) by auto
  with both show ?thesis by simp
qed

lemma build_graph_last_call:
  "build_graph = add_conditional_edges ''critique_and_revise'' critique_condition
          [(''search_context'', ''search_context''), (''publish'', ''publish'')] before_conditional"
  by (simp add: before_conditional_def add_conditional_edges_def branches_build_graph)

lemma compile_before_conditional: "compile_graph before_conditional = Inr before_conditional"
  by (simp add: compile_graph_def edge_sources_def edge_targets_def before_conditional_def
      nodes_build_graph edges_build_graph START_def END_def)

text \<open>
  The last call of \<open>_build_graph\<close> adds the conditional edge to a node that has an
  unconditional one.
\<close>

theorem compile_accepts_both_edges_witness:
  "compile_graph before_conditional = Inr before_conditional \<and>
   (''critique_and_revise'', ''publish'') \<in> set (edges before_conditional) \<and>
   has_both_edges build_graph ''critique_and_revise'' \<and>
   compile_graph build_graph = Inr build_graph"
  using compile_accepts_both_edges[of before_conditional "''critique_and_revise''" "''publish''"
      "[(''search_context'', ''search_context''), (''publish'', ''publish'')]" critique_condition]
    compile_before_conditional
  by (simp add: build_graph_last_call[symmetric])
     (simp add: before_conditional_def nodes_build_graph edges_build_graph)

text \<open>
  The graph of the repository: \<open>critique_and_revise\<close> has both kinds of edges, and the
  graph compiles.
\<close>

theorem repository_graph_compiles:
  "has_both_edges build_graph ''critique_and_revise'' \<and>
   (''critique_and_revise'', ''publish'') \<in> set (edges build_graph) \<and>
   compile_graph build_graph = Inr build_graph"
  by (simp add: has_both_edges_build_graph compile_build_graph) (simp add: edges_build_graph)

section \<open>The critique loop\<close>

lemma run_nodes_member:
  "run_nodes E g active st = Inr us \<Longrightarrow> n \<in> set active \<Longrightarrow>
     \<exists>fn u. map_of (nodes g) n = Some fn \<and> fn E st = Inr u \<and> u \<in> set us"
  by (induction active arbitrary: us) (auto split: option.splits sum.splits)

lemma run_nodes_origin:
  "run_nodes E g active st = Inr us \<Longrightarrow> u \<in> set us \<Longrightarrow>
     \<exists>n fn. n \<in> set active \<and> map_of (nodes g) n = Some fn \<and> fn E st = Inr u"
proof (induction active arbitrary: us)
  case Nil
  then show ?case by simp
next
  case (Cons a active)
  from Cons.prems(1) obtain fn u0 us0 where
    fn: "map_of (nodes g) a = Some fn" and u0: "fn E st = Inr u0"
    and us0: "run_nodes E g active st = Inr us0" and us: "us = u0 # us0"
    by (auto split: option.splits sum.splits)
  show ?case
  proof (cases "u = u0")
    case True
    with fn u0 have "a \<in> set (a # active) \<and> map_of (nodes g) a = Some fn \<and> fn E st = Inr u"
      by simp
    then show ?thesis by blast
  next
    case False
    with Cons.prems(2) us have "u \<in> set us0" by simp
    from Cons.IH[OF us0 this] obtain n fn' where
      "n \<in> set active" "map_of (nodes g) n = Some fn'" "fn' E st = Inr u" by blast
    then have "n \<in> set (a # active) \<and> map_of (nodes g) n = Some fn' \<and> fn' E st = Inr u"
      by simp
    then show ?thesis by blast
  qed
qed

lemma response_foldl_same:
  "(\<And>u. u \<in> set us \<Longrightarrow> update_key u = ''response'' \<Longrightarrow> u = Response v) \<Longrightarrow> response st = v \<Longrightarrow>
   response (foldl (\<lambda>s u. apply_update u s) st us) = v"
proof (induction us arbitrary: st)
  case Nil
  then show ?case by simp
next
  case (Cons u us)
  have "response (apply_update u st) = v"
  proof (cases u)
    case (Response r)
    with Cons.prems(1)[of u] show ?thesis by simp
  qed (use Cons.prems(2) in simp_all)
  with Cons show ?case by simp
qed

lemma response_foldl_written:
  "distinct (map update_key us) \<Longrightarrow> Response r \<in> set us \<Longrightarrow>
   response (foldl (\<lambda>s u. apply_update u s) st us) = r"
proof (induction us arbitrary: st)
  case Nil
  then show ?case by simp
next
  case (Cons u us)
  show ?case
  proof (cases "u = Response r")
    case True
    from Cons.prems(1) True have "''response'' \<notin> update_key ` set us" by simp
    then have "response (foldl (\<lambda>s u. apply_update u s) (apply_update u st) us) = r"
      by (intro response_foldl_same) (auto simp: True image_iff)
    then show ?thesis by simp
  next
    case False
    with Cons.prems have "distinct (map update_key us)" "Response r \<in> set us" by simp_all
    from Cons.IH[OF this] show ?thesis by simp
  qed
qed

lemma next_nodes_member:
  "next_nodes P g active st = Inr ts \<Longrightarrow> n \<in> set active \<Longrightarrow>
     \<exists>tn. node_targets P g n st = Inr tn \<and> set tn \<subseteq> set ts"
proof (induction active arbitrary: ts)
  case Nil
  then show ?case by simp
next
  case (Cons a active)
  from Cons.prems(1) obtain ta later where
    ta: "node_targets P g a st = Inr ta" and later: "next_nodes P g active st = Inr later"
    and ts: "ts = ta @ later"
    by (auto split: sum.splits)
  show ?case
  proof (cases "n = a")
    case True
    with ta ts show ?thesis by simp
  next
    case False
    with Cons.prems(2) have "n \<in> set active" by simp
    from Cons.IH[OF later this] ts show ?thesis by auto
  qed
qed

lemma node_targets_build_graph:
  "node_targets P build_graph ''parse'' st = Inr [''search_context'']"
  "node_targets P build_graph ''search_context'' st = Inr [''llm'']"
  "node_targets P build_graph ''llm'' st = Inr [''critique_and_revise'']"
  "node_targets P build_graph ''publish'' st = Inr [END]"
  by (simp_all add: node_targets_def static_targets_def edges_build_graph branches_build_graph
      START_def END_def)

lemma node_targets_critique:
  "node_targets P build_graph ''critique_and_revise'' st =
     Inr (if P then [critique_condition st] else [''publish'', critique_condition st])"
  using critique_condition_labels[of st]
  by (auto simp add: node_targets_def static_targets_def edges_build_graph branches_build_graph
      START_def END_def)

lemma map_of_nodes_build_graph:
  "map_of (nodes build_graph) ''parse'' = Some query_parser_node"
  "map_of (nodes build_graph) ''search_context'' = Some search_and_context_node"
  "map_of (nodes build_graph) ''llm'' = Some llm_node"
  "map_of (nodes build_graph) ''critique_and_revise'' = Some critique_and_revise_node"
  "map_of (nodes build_graph) ''publish'' = Some publish_node"
  by (simp_all add: nodes_build_graph)

lemma map_of_nodes_cases:
  "map_of (nodes build_graph) n = Some fn \<Longrightarrow>
     fn = query_parser_node \<or> fn = search_and_context_node \<or> fn = llm_node \<or>
     fn = critique_and_revise_node \<or> fn = publish_node"
  by (auto simp: nodes_build_graph split: if_splits)

lemma map_of_nodes_llm:
  "map_of (nodes build_graph) n = Some fn \<Longrightarrow> n \<noteq> ''llm'' \<Longrightarrow>
     (\<exists>r. fn E st = Inr (Response r)) \<Longrightarrow> fn E st = Inr (Response (response st))"
  by (auto simp: nodes_build_graph query_parser_node_def search_and_context_node_def
      critique_and_revise_node_def publish_node_def split: if_splits sum.splits)

lemma superstep_Inr:
  assumes "superstep P E g active st = Inr (active', st')"
  obtains us ts where "run_nodes E g active st = Inr us" "distinct (map update_key us)"
    "st' = foldl (\<lambda>s u. apply_update u s) st us" "next_nodes P g active st' = Inr ts"
    "active' = remdups (filter (\<lambda>t. t \<noteq> END) ts)"
  using assms unfolding superstep_def Let_def
  by (auto split: sum.splits if_splits)

lemma scheduled:
  assumes "next_nodes P g active st = Inr ts" "n \<in> set active"
    "node_targets P g n st = Inr tn" "t \<in> set tn" "t \<noteq> END"
  shows "t \<in> set (remdups (filter (\<lambda>t. t \<noteq> END) ts))"
proof -
  from next_nodes_member[OF assms(1,2)] assms(3) have "set tn \<subseteq> set ts" by auto
  with assms(4,5) show ?thesis by auto
qed

lemma llm_node_inaccurate:
  assumes "always_inaccurate E"
  shows "\<exists>r. llm_node E st = Inr (Response r) \<and> contains ''inaccurate'' (lower r)"
proof -
  from assms obtain s where "cohere E (answer_prompt (query st) (combined_context st)) = Inr s"
    "contains ''inaccurate'' (lower s)"
    unfolding always_inaccurate_def by blast
  then show ?thesis by (simp add: llm_node_def generate_answer_def)
qed

lemma END_names: "''search_context'' \<noteq> END" "''llm'' \<noteq> END" "''critique_and_revise'' \<noteq> END"
  by (simp_all add: END_def)

lemma step_retry_pending:
  assumes inacc: "always_inaccurate E"
    and live: "retry_pending active st"
    and step: "superstep P E build_graph active st = Inr (active', st')"
  shows "retry_pending active' st'"
proof -
  from step obtain us ts where
    run: "run_nodes E build_graph active st = Inr us" and
    dist: "distinct (map update_key us)" and
    st': "st' = foldl (\<lambda>s u. apply_update u s) st us" and
    nxt: "next_nodes P build_graph active st' = Inr ts" and
    act: "active' = remdups (filter (\<lambda>t. t \<noteq> END) ts)"
    by (rule superstep_Inr)
  consider (parse) "''parse'' \<in> set active"
    | (search) "''search_context'' \<in> set active"
    | (llm) "''llm'' \<in> set active"
    | (critique) "''llm'' \<notin> set active" "''critique_and_revise'' \<in> set active"
        "contains ''inaccurate'' (lower (response st))"
    using live unfolding retry_pending_def by blast
  then show ?thesis
  proof cases
    case parse
    from scheduled[OF nxt parse node_targets_build_graph(1)[of P st'], of "''search_context''"]
    have "''search_context'' \<in> set active'" by (simp add: act END_names)
    then show ?thesis by (simp add: retry_pending_def)
  next
    case search
    from scheduled[OF nxt search node_targets_build_graph(2)[of P st'], of "''llm''"]
    have "''llm'' \<in> set active'" by (simp add: act END_names)
    then show ?thesis by (simp add: retry_pending_def)
  next
    case llm
    from scheduled[OF nxt llm node_targets_build_graph(3)[of P st'], of "''critique_and_revise''"]
    have c: "''critique_and_revise'' \<in> set active'" by (simp add: act END_names)
    from llm_node_inaccurate[OF inacc, of st] obtain r where
      r: "llm_node E st = Inr (Response r)" "contains ''inaccurate'' (lower r)" by blast
    from run_nodes_member[OF run llm] r(1) have "Response r \<in> set us"
      by (auto simp: map_of_nodes_build_graph)
    from response_foldl_written[OF dist this] have "response st' = r" by (simp add: st')
    with c r(2) show ?thesis by (simp add: retry_pending_def)
  next
    case critique
    have same: "u = Response (response st)" if "u \<in> set us" "update_key u = ''response''" for u
    proof -
      from run_nodes_origin[OF run that(1)] obtain n fn where
        n: "n \<in> set active" "map_of (nodes build_graph) n = Some fn" "fn E st = Inr u" by blast
      from that(2) obtain r where "u = Response r" by (cases u) auto
      with n critique(1) map_of_nodes_llm[OF n(2), of E st] show ?thesis by auto
    qed
    have "response st' = response st"
      unfolding st' by (rule response_foldl_same) (use same in auto)
    with critique(3) have "critique_condition st' = ''search_context''"
      by (simp add: critique_condition_def)
    with scheduled[OF nxt critique(2) node_targets_critique[of P st'], of "''search_context''"]
    have "''search_context'' \<in> set active'" by (simp add: act END_names)
    then show ?thesis by (simp add: retry_pending_def)
  qed
qed

lemma retry_pending_not_Nil: "retry_pending active st \<Longrightarrow> active \<noteq> []"
  by (auto simp: retry_pending_def)

lemma pregel_never_done:
  assumes "always_inaccurate E"
  shows "retry_pending active st \<Longrightarrow> fst (pregel P E build_graph k active st trace) \<noteq> Done s"
proof (induction k arbitrary: active st trace)
  case 0
  then show ?case by (simp add: retry_pending_not_Nil)
next
  case (Suc k)
  show ?case
  proof (cases "superstep P E build_graph active st")
    case (Inl e)
    with Suc.prems show ?thesis by (simp add: retry_pending_not_Nil)
  next
    case (Inr next_step)
    obtain active' st' where ns: "next_step = (active', st')" by (cases next_step)
    from step_retry_pending[OF assms Suc.prems Inr[unfolded ns]]
    have "retry_pending active' st'" .
    from Suc.IH[OF this] Inr ns Suc.prems show ?thesis by (simp add: retry_pending_not_Nil)
  qed
qed

lemma static_targets_START: "static_targets build_graph START = [''parse'']"
  by (simp add: static_targets_def edges_build_graph START_def END_def)

text \<open>
  C3, as the code has it: the state has no iteration counter and the graph no bound on the
  iterations; the routing after the critique looks at the response alone. When every
  answer of the generation provider contains "inaccurate", the run of the repository's
  graph never finishes, whatever number of steps the executor is allowed and whichever way
  it reads the two edges of the critique: it ends by an exception of a node or when the
  steps are used up.
\<close>

theorem critique_loop_never_finishes:
  assumes "always_inaccurate E"
  shows "\<nexists>s. fst (invoke P E build_graph steps q) = Done s"
  using pregel_never_done[OF assms, of "[''parse'']" "initial_state q" P steps "[]"]
  by (simp add: invoke_def static_targets_START retry_pending_def)

lemma contains_inaccurate: "contains ''inaccurate'' (lower ''inaccurate'')"
  by code_simp

lemma always_inaccurate_stub_env: "always_inaccurate stub_env"
  by (simp add: always_inaccurate_def stub_env_def contains_inaccurate)

lemma query_parser_node_stub: "query_parser_node stub_env st = Inr (Subqueries [query st])"
  by (simp add: query_parser_node_def generate_subqueries_def stub_env_def)

lemma tavily_search_stub:
  assumes "length q \<le> 400"
  shows "tavily_search stub_env q d = (Inr ''No relevant information found.'', [])"
  unfolding tavily_search_def retry_async_def
  by (rule retrying_returns)
     (use assms in \<open>simp add: tavily_search_body_def stub_env_def format_context_from_tavily_def\<close>)

lemma search_node_stub:
  assumes "subqueries st = [q]" "length q \<le> 400"
  shows "search_and_context_node stub_env st = Inr (Combined_context ''No relevant information found.'')"
  using assms by (simp add: search_and_context_node_def tavily_search_stub)

lemma llm_node_stub: "llm_node stub_env st = Inr (Response ''inaccurate'')"
  by (simp add: llm_node_def generate_answer_def stub_env_def)

lemma critique_node_stub: "critique_and_revise_node stub_env st = Inr (Revised_response ''inaccurate'')"
  by (simp add: critique_and_revise_node_def generate_answer_def stub_env_def)

lemma critique_condition_inaccurate:
  "response st = ''inaccurate'' \<Longrightarrow> critique_condition st = ''search_context''"
  by (simp add: critique_condition_def contains_inaccurate)

lemma step_parse:
  "superstep P stub_env build_graph [''parse''] st =
     Inr ([''search_context''], st\<lparr>subqueries := [query st]\<rparr>)"
  by (simp add: superstep_def map_of_nodes_build_graph query_parser_node_stub
      node_targets_build_graph END_def)

lemma step_search:
  assumes "subqueries st = [q]" "length q \<le> 400"
  shows "superstep P stub_env build_graph [''search_context''] st =
     Inr ([''llm''], st\<lparr>combined_context := ''No relevant information found.''\<rparr>)"
  by (simp add: superstep_def map_of_nodes_build_graph search_node_stub[OF assms]
      node_targets_build_graph END_def)

lemma step_llm:
  "superstep P stub_env build_graph [''llm''] st =
     Inr ([''critique_and_revise''], st\<lparr>response := ''inaccurate''\<rparr>)"
  by (simp add: superstep_def map_of_nodes_build_graph llm_node_stub
      node_targets_build_graph END_def)

lemma step_critique:
  assumes "response st = ''inaccurate''"
  shows "superstep P stub_env build_graph [''critique_and_revise''] st =
     Inr (if P then [''search_context''] else [''publish'', ''search_context''],
          st\<lparr>revised_response := ''inaccurate''\<rparr>)"
  using assms
  by (simp add: superstep_def map_of_nodes_build_graph critique_node_stub
      node_targets_critique critique_condition_inaccurate END_def)

lemma step_publish_search:
  assumes "subqueries st = [q]" "length q \<le> 400"
  shows "superstep P stub_env build_graph [''publish'', ''search_context''] st =
     Inr ([''llm''], st\<lparr>response := response st,
                         combined_context := ''No relevant information found.''\<rparr>)"
  by (simp add: superstep_def map_of_nodes_build_graph search_node_stub[OF assms] publish_node_def
      node_targets_build_graph END_def)

lemma loop_search: "superstep P stub_env build_graph [''search_context''] looping_state = Inr ([''llm''], looping_state)"
  using step_search[of looping_state example_query P]
  by (simp add: looping_state_def example_query_def)

lemma loop_llm: "superstep P stub_env build_graph [''llm''] looping_state = Inr ([''critique_and_revise''], looping_state)"
  using step_llm[of P looping_state] by (simp add: looping_state_def)

lemma loop_critique:
  "superstep P stub_env build_graph [''critique_and_revise''] looping_state =
     Inr (if P then [''search_context''] else [''publish'', ''search_context''], looping_state)"
  using step_critique[of looping_state P] by (simp add: looping_state_def)

lemma loop_publish_search:
  "superstep P stub_env build_graph [''publish'', ''search_context''] looping_state = Inr ([''llm''], looping_state)"
  using step_publish_search[of looping_state example_query P]
  by (simp add: looping_state_def example_query_def)

lemma first_pass:
  "pregel P stub_env build_graph (Suc (Suc (Suc (Suc k)))) [''parse''] (initial_state example_query) [] =
   pregel P stub_env build_graph k (if P then [''search_context''] else [''publish'', ''search_context''])
     looping_state [[''parse''], [''search_context''], [''llm''], [''critique_and_revise'']]"
proof -
  let ?s0 = "initial_state example_query"
  let ?s1 = "?s0\<lparr>subqueries := [example_query]\<rparr>"
  let ?s2 = "?s1\<lparr>combined_context := ''No relevant information found.''\<rparr>"
  let ?s3 = "?s2\<lparr>response := ''inaccurate''\<rparr>"
  have 1: "superstep P stub_env build_graph [''parse''] ?s0 = Inr ([''search_context''], ?s1)"
    using step_parse[of P ?s0] by (simp add: initial_state_def)
  have 2: "superstep P stub_env build_graph [''search_context''] ?s1 = Inr ([''llm''], ?s2)"
    by (rule step_search[of _ example_query]) (simp_all add: initial_state_def example_query_def)
  have 3: "superstep P stub_env build_graph [''llm''] ?s2 = Inr ([''critique_and_revise''], ?s3)"
    by (rule step_llm)
  have 4: "superstep P stub_env build_graph [''critique_and_revise''] ?s3 =
      Inr (if P then [''search_context''] else [''publish'', ''search_context''], looping_state)"
    using step_critique[of ?s3 P] by (simp add: initial_state_def looping_state_def)
  show ?thesis by (simp add: 1 2 3 4)
qed

lemma next_pass:
  "pregel P stub_env build_graph (Suc (Suc (Suc k)))
     (if P then [''search_context''] else [''publish'', ''search_context'']) looping_state trace =
   pregel P stub_env build_graph k (if P then [''search_context''] else [''publish'', ''search_context''])
     looping_state
     (trace @ [if P then [''search_context''] else [''publish'', ''search_context''],
               [''llm''], [''critique_and_revise'']])"
  by (cases P) (simp_all add: loop_search loop_llm loop_critique loop_publish_search)

lemma run11:
  "invoke P stub_env build_graph 11 example_query =
     (Out_of_steps looping_state,
      [[''parse''], [''search_context''], [''llm''], [''critique_and_revise'']] @
      [if P then [''search_context''] else [''publish'', ''search_context''],
       [''llm''], [''critique_and_revise''],
       if P then [''search_context''] else [''publish'', ''search_context''],
       [''llm''], [''critique_and_revise'']] @
      [if P then [''search_context''] else [''publish'', ''search_context'']])"
proof -
  have "(11::nat) = Suc (Suc (Suc (Suc (Suc (Suc (Suc (Suc (Suc (Suc (Suc 0))))))))))"
    by simp
  then show ?thesis
    by (simp only: invoke_def static_targets_START first_pass next_pass)
       (cases P; simp add: loop_search loop_publish_search)
qed

lemma passes11: "retrieval_passes (snd (invoke P stub_env build_graph 11 example_query)) = 4"
  by (cases P) (simp_all add: run11 retrieval_passes_def)

lemma looping_run_out_of_steps:
  assumes "active \<in> {[''search_context''], [''publish'', ''search_context''], [''llm''],
      [''critique_and_revise'']}"
  shows "fst (pregel P stub_env build_graph k active looping_state trace) = Out_of_steps looping_state"
  using assms
proof (induction k arbitrary: active trace)
  case 0
  then show ?case by auto
next
  case (Suc k)
  then show ?case
    by (auto simp: loop_search loop_llm loop_critique loop_publish_search)
qed

lemma stub_run_out_of_steps:
  "fst (invoke P stub_env build_graph (Suc (Suc (Suc (Suc k)))) example_query) =
     Out_of_steps looping_state"
  unfolding invoke_def static_targets_START first_pass
  by (rule looping_run_out_of_steps) simp

text \<open>
  The stub environment satisfies the hypothesis; its runs of 11 steps do not finish.
\<close>

theorem critique_loop_never_finishes_witness:
  "always_inaccurate stub_env \<and>
   (\<nexists>s. fst (invoke False stub_env build_graph 11 example_query) = Done s) \<and>
   (\<nexists>s. fst (invoke True stub_env build_graph 11 example_query) = Done s)"
  using critique_loop_never_finishes[OF always_inaccurate_stub_env, of False 11 example_query]
    critique_loop_never_finishes[OF always_inaccurate_stub_env, of True 11 example_query]
    always_inaccurate_stub_env
  by simp

text \<open>
  The stub environment always answers "inaccurate". A run that is allowed 11 steps is in
  its fourth retrieval pass when the steps are used up, under both readings of the edges
  of the critique; it has not finished.
\<close>

theorem fourth_retrieval_pass:
  "retrieval_passes (snd (invoke False stub_env build_graph 11 example_query)) = 4 \<and>
   retrieval_passes (snd (invoke True stub_env build_graph 11 example_query)) = 4 \<and>
   fst (invoke False stub_env build_graph 11 example_query) = Out_of_steps looping_state \<and>
   fst (invoke True stub_env build_graph 11 example_query) = Out_of_steps looping_state"
  by (simp add: passes11) (simp add: run11)

end
